theory Spec2Isabelle
  imports Main "HOL-Library.Word"
begin

section \<open>Framed transport (ffProtocol: class FirefoxProtocol)\<close>

text \<open>
  A Node \<open>Buffer\<close> is a list of bytes. Positions and lengths are JavaScript numbers that
  stay far below \<open>2^53\<close> (a buffer cannot be longer), so they are natural numbers here.
\<close>

type_synonym byte = "8 word"

datatype error = InvalidPacketHeader | SyntaxError | TypeError | TabNotFound

text \<open>The test \<open>buffer[i] >= 0x30 && buffer[i] <= 0x39\<close>.\<close>

definition is_digit :: "byte \<Rightarrow> bool" where
  "is_digit b = (0x30 \<le> b \<and> b \<le> 0x39)"

text \<open>
  \<open>buffer.toString('utf8', start, end)\<close> and \<open>buffer.slice(start, end)\<close> select the
  bytes from \<open>start\<close> up to, not including, \<open>end\<close>.
\<close>

definition slice :: "byte list \<Rightarrow> nat \<Rightarrow> nat \<Rightarrow> byte list" where
  "slice buffer start end' = take (end' - start) (drop start buffer)"

text \<open>
  The unary plus of \<open>+buffer.toString('utf8', pos, i)\<close> applied to a run of ASCII
  digits: the number the digits denote in base ten.
\<close>

definition number_of_digits :: "byte list \<Rightarrow> nat" where
  "number_of_digits ds = foldl (\<lambda>acc b. 10 * acc + unat (b - 0x30)) 0 ds"

text \<open>
  The string a non-negative integer is converted to by \<open>buffer.length + ':'\<close>, without the
  colon, as bytes: base ten, no leading zero.
\<close>

fun decimal :: "nat \<Rightarrow> byte list" where
  "decimal n = (if n < 10 then [0x30 + of_nat n]
                else decimal (n div 10) @ [0x30 + of_nat (n mod 10)])"

declare decimal.simps [simp del]

text \<open>The scanning loop \<open>while (i < buffer.length && buffer[i] is a digit) i++\<close>.\<close>

function scan_digits :: "byte list \<Rightarrow> nat \<Rightarrow> nat" where
  "scan_digits buffer i =
     (if i < length buffer \<and> is_digit (buffer ! i) then scan_digits buffer (Suc i) else i)"
  by pat_completeness auto
termination
  by (relation "measure (\<lambda>(buffer, i). length buffer - i)") auto

declare scan_digits.simps [simp del]

record 'j parse_result =
  lastPos :: nat
  body :: "'j option"

text \<open>
  \<open>parseFirefoxPacket(buffer, pos)\<close>. The result \<open>Inl e\<close> is a thrown exception,
  \<open>Inr None\<close> is \<open>null\<close> (more data is needed), \<open>Inr (Some r)\<close> is the returned object.
  The body \<open>None\<close> is \<open>undefined\<close>. The parameter \<open>JSON_parse\<close> stands for the platform's
  \<open>JSON.parse\<close> applied to the UTF-8 decoding of the body bytes; it throws on text that
  is not JSON. The decoded string is empty exactly when there are no body bytes.
\<close>

definition parseFirefoxPacket ::
  "(byte list \<Rightarrow> error + 'j) \<Rightarrow> byte list \<Rightarrow> nat \<Rightarrow> error + 'j parse_result option" where
  "parseFirefoxPacket JSON_parse buffer pos =
     (let i = scan_digits buffer pos in
      if i \<ge> length buffer then Inr None
      else if i = pos \<or> buffer ! i \<noteq> 0x3a then Inl InvalidPacketHeader
      else
        let contentLength = number_of_digits (slice buffer pos i);
            i = i + 1
        in if i + contentLength > length buffer then Inr None
           else
             let body = slice buffer i (i + contentLength)
             in if body = [] then Inr (Some \<lparr>lastPos = i + contentLength, body = None\<rparr>)
                else (case JSON_parse body of
                        Inl e \<Rightarrow> Inl e
                      | Inr v \<Rightarrow> Inr (Some \<lparr>lastPos = i + contentLength, body = Some v\<rparr>)))"

text \<open>
  The loop of the \<open>'data\<close> handler:
  \<open>while (pos < newBuffer.length && (parseResult = parseFirefoxPacket(newBuffer, pos)))\<close>,
  calling \<open>onExecuteCommand(parseResult.body)\<close> and moving \<open>pos\<close> to \<open>lastPos\<close>. The list
  \<open>executed\<close> holds the arguments of the calls of \<open>onExecuteCommand\<close> made so far, oldest
  first. The loop ends with the position reached, or with the exception the parser threw.
\<close>

function data_loop ::
  "(byte list \<Rightarrow> error + 'j) \<Rightarrow> byte list \<Rightarrow> nat \<Rightarrow> 'j option list
     \<Rightarrow> 'j option list \<times> (error + nat)" where
  "data_loop JSON_parse newBuffer pos executed =
     (if pos < length newBuffer then
        (case parseFirefoxPacket JSON_parse newBuffer pos of
           Inl e \<Rightarrow> (executed, Inl e)
         | Inr None \<Rightarrow> (executed, Inr pos)
         | Inr (Some parseResult) \<Rightarrow>
             data_loop JSON_parse newBuffer (lastPos parseResult) (executed @ [body parseResult]))
      else (executed, Inr pos))"
  by pat_completeness auto
termination
proof (relation "measure (\<lambda>(JSON_parse, newBuffer, pos, executed). length newBuffer - pos)")
  show "wf (measure (\<lambda>(JSON_parse :: byte list \<Rightarrow> error + 'j, newBuffer, pos,
                       executed :: 'j option list). length newBuffer - pos))"
    by simp
next
  fix JSON_parse :: "byte list \<Rightarrow> error + 'j" and newBuffer pos
    and executed :: "'j option list" and x2 and parseResult :: "'j parse_result"
  assume "pos < length newBuffer"
    and "parseFirefoxPacket JSON_parse newBuffer pos = Inr x2"
    and "x2 = Some parseResult"
  then have parsed: "parseFirefoxPacket JSON_parse newBuffer pos = Inr (Some parseResult)"
    by simp
  have "i \<le> scan_digits buffer i" for buffer i
  proof (induction buffer i rule: scan_digits.induct)
    case (1 buffer i)
    show ?case
    proof (cases "i < length buffer \<and> is_digit (buffer ! i)")
      case True
      with 1 have "Suc i \<le> scan_digits buffer (Suc i)" by blast
      with True show ?thesis by (subst scan_digits.simps) simp
    next
      case False
      then show ?thesis by (subst scan_digits.simps) auto
    qed
  qed
  then have "pos \<le> scan_digits newBuffer pos" .
  with parsed have "pos < lastPos parseResult \<and> lastPos parseResult \<le> length newBuffer"
    by (auto simp: parseFirefoxPacket_def Let_def split: if_splits sum.splits)
  then show "((JSON_parse, newBuffer, lastPos parseResult, executed @ [body parseResult]),
              (JSON_parse, newBuffer, pos, executed))
             \<in> measure (\<lambda>(JSON_parse, newBuffer, pos, executed). length newBuffer - pos)"
    by (simp add: diff_less_mono2)
qed

declare data_loop.simps [simp del]

text \<open>
  The state of the transport that the \<open>'data'\<close> handler reads and writes: the closure
  variable \<open>ffBuffer\<close>, and the calls of \<open>onExecuteCommand\<close> made so far.
\<close>

record 'j transport =
  ffBuffer :: "byte list"
  executed :: "'j option list"

text \<open>
  The \<open>'data'\<close> handler of \<open>setupSocket\<close>. When the parser throws, the exception leaves the
  handler: the commands of the frames before it have been executed and \<open>ffBuffer\<close> keeps
  its old value.
\<close>

definition on_data ::
  "(byte list \<Rightarrow> error + 'j) \<Rightarrow> 'j transport \<Rightarrow> byte list \<Rightarrow> (error + unit) \<times> 'j transport" where
  "on_data JSON_parse t data =
     (let newBuffer = ffBuffer t @ data in
      case data_loop JSON_parse newBuffer 0 (executed t) of
        (ex, Inl e) \<Rightarrow> (Inl e, t\<lparr>executed := ex\<rparr>)
      | (ex, Inr pos) \<Rightarrow>
          (Inr (),
           t\<lparr>executed := ex,
             ffBuffer := (if pos < length newBuffer then slice newBuffer pos (length newBuffer)
                          else if length (ffBuffer t) > 0 then []
                          else ffBuffer t)\<rparr>))"

text \<open>
  \<open>sendResponse(body)\<close>: the bytes written to the socket. The parameter \<open>JSON_stringify\<close>
  stands for the platform's \<open>JSON.stringify\<close> followed by the UTF-8 encoding of
  \<open>new Buffer(string)\<close>.
\<close>

definition sendResponse :: "('j \<Rightarrow> byte list) \<Rightarrow> 'j \<Rightarrow> byte list" where
  "sendResponse JSON_stringify msg =
     (let buffer = JSON_stringify msg;
          headerBytes = decimal (length buffer) @ [0x3a]
      in headerBytes @ buffer)"

subsection \<open>Frames, as the wire protocol describes them\<close>

text \<open>
  A frame is a run of ASCII digits, a colon and the body bytes. It is complete when the
  digits denote the number of body bytes. It is written here as the pair of its digits and
  its body.
\<close>

definition frame_bytes :: "byte list \<times> byte list \<Rightarrow> byte list" where
  "frame_bytes f = fst f @ [0x3a] @ snd f"

definition complete_frame :: "byte list \<times> byte list \<Rightarrow> bool" where
  "complete_frame f =
     (fst f \<noteq> [] \<and> list_all is_digit (fst f) \<and> number_of_digits (fst f) = length (snd f))"

definition partial_frame :: "byte list \<Rightarrow> bool" where
  "partial_frame bs =
     (let ds = takeWhile is_digit bs; r = dropWhile is_digit bs
      in r = [] \<or> (ds \<noteq> [] \<and> hd r = 0x3a \<and> length (tl r) < number_of_digits ds))"

definition parses :: "(byte list \<Rightarrow> error + 'j) \<Rightarrow> byte list \<times> byte list \<Rightarrow> bool" where
  "parses JSON_parse f = (snd f = [] \<or> \<not> isl (JSON_parse (snd f)))"

definition message_of :: "(byte list \<Rightarrow> error + 'j) \<Rightarrow> byte list \<times> byte list \<Rightarrow> 'j option" where
  "message_of JSON_parse f =
     (if snd f = [] then None
      else case JSON_parse (snd f) of Inl e \<Rightarrow> None | Inr v \<Rightarrow> Some v)"

subsection \<open>The connection\<close>

text \<open>
  The fields of a \<open>FirefoxProtocol\<close> object that the handlers of its socket read and
  write: \<open>_state\<close>, the socket \<open>_client\<close> with the state of its \<open>'data'\<close> handler, and
  whether \<open>client.end()\<close> has been called. \<open>onExecuteCommand\<close> and \<open>onDisconnect\<close> of this
  class are empty.
\<close>

record 'j FirefoxProtocol =
  state' :: string
  client :: "'j transport"
  ended :: bool



text \<open>
  An \<open>'end'\<close> event of the socket: \<open>client.end()\<close>, \<open>_state = 'disconnected'\<close>,
  \<open>onDisconnect()\<close>. This is the only place where the connection is ended.
\<close>

definition end_event :: "'j FirefoxProtocol \<Rightarrow> 'j FirefoxProtocol" where
  "end_event this = this\<lparr>ended := True, state' := ''disconnected''\<rparr>"



section \<open>JavaScript values of the protocol messages\<close>

text \<open>
  A message body is what \<open>JSON.parse\<close> returns: an object, an array, a string, a number, a
  boolean or \<open>null\<close>. \<open>JUndefined\<close> is JavaScript's \<open>undefined\<close>, the value of a
  property that is not there. Numbers are integers here (line numbers, indices); a number
  with a fraction has no counterpart in this model. An object is the list of its
  properties in order.
\<close>

datatype json =
    JUndefined
  | JNull
  | JBool bool
  | JNum int
  | JStr string
  | JArr "json list"
  | JObj "(string \<times> json) list"

text \<open>The truth value a condition such as \<open>if (body.type)\<close> gives to a value.\<close>

fun truthy :: "json \<Rightarrow> bool" where
  "truthy JUndefined = False"
| "truthy JNull = False"
| "truthy (JBool b) = b"
| "truthy (JNum n) = (n \<noteq> 0)"
| "truthy (JStr s) = (s \<noteq> [])"
| "truthy (JArr xs) = True"
| "truthy (JObj kvs) = True"

text \<open>
  The property read \<open>value.k\<close> on a value that is neither \<open>null\<close> nor \<open>undefined\<close>. The
  source reads no property that strings, numbers, booleans or arrays inherit, so on those
  the result is \<open>undefined\<close>.
\<close>

fun get :: "json \<Rightarrow> string \<Rightarrow> json" where
  "get (JObj kvs) k = (case map_of kvs k of Some x \<Rightarrow> x | None \<Rightarrow> JUndefined)"
| "get v k = JUndefined"

text \<open>The property read \<open>value.k\<close> on any value: on \<open>null\<close> and \<open>undefined\<close> it throws.\<close>

definition read_prop :: "json \<Rightarrow> string \<Rightarrow> error + json" where
  "read_prop v k = (if v = JUndefined \<or> v = JNull then Inl TypeError else Inr (get v k))"

text \<open>
  The assignment \<open>value.k = x\<close> on an object (the callers of \<open>sendRequest\<close> and
  \<open>sendMessage\<close> pass object literals).
\<close>

fun set_prop :: "json \<Rightarrow> string \<Rightarrow> json \<Rightarrow> json" where
  "set_prop (JObj kvs) k x =
     (if k \<in> fst ` set kvs then JObj (map (\<lambda>(k', y). if k' = k then (k', x) else (k', y)) kvs)
      else JObj (kvs @ [(k, x)]))"
| "set_prop v k x = v"

text \<open>\<open>typeof value === 'object' && value !== null\<close>: objects and arrays.\<close>

fun is_object :: "json \<Rightarrow> bool" where
  "is_object (JObj kvs) = True"
| "is_object (JArr xs) = True"
| "is_object v = False"

text \<open>
  A promise is pending, fulfilled with a value or rejected with a reason. Settling a
  promise that is already settled changes nothing.
\<close>

datatype ('a, 'r) promise = Pending | Fulfilled 'a | Rejected 'r

definition settle :: "('a, 'r) promise \<Rightarrow> ('a, 'r) promise \<Rightarrow> ('a, 'r) promise" where
  "settle p outcome = (if p = Pending then outcome else p)"

section \<open>Actors (ffSession: classes ActorRequest, Actor and its subclasses)\<close>

text \<open>
  An \<open>ActorRequest\<close> is the body to send and a promise capability. The capabilities live
  in a store, in the order in which they were created; a request holds the index of its
  own. \<open>respond\<close> fulfils it with the response; \<open>fail\<close> rejects it with an \<open>ActorError\<close>
  that carries the error body.
\<close>

record ActorRequest =
  request_body :: json
  capability :: nat

datatype actor_class =
    RootActor | ConsoleActor | TabActor | ContextActor
  | EnvironmentActor | GripActor | SourceActor | Breakpoint

datatype SessionState = INITIALIZATION | SELECT_TAB | READY

text \<open>What the actor passes to \<open>protocol.relayResponse\<close>: the body of a request, or a message.\<close>

datatype relay = Request ActorRequest | Message json

fun relay_body :: "relay \<Rightarrow> json" where
  "relay_body (Request r) = request_body r"
| "relay_body (Message b) = b"

record ResultVariable =
  display :: json
  id' :: json

text \<open>
  An actor: its name (whatever value the server gave for it), its class, the fields
  \<open>_processing\<close> and \<open>_queue\<close> of the base class, \<open>_tabState\<close> and \<open>_program\<close> of the root
  actor and \<open>_evaluateCapabilty\<close> of the context actor (\<open>None\<close> is \<open>null\<close>). With them, what the actor has done to the world outside it: the
  promise capabilities of the requests it created (\<open>capabilities\<close>) and its calls of
  \<open>protocol.relayResponse\<close> (\<open>relayed\<close>), of \<open>protocol.notifySession\<close> (\<open>notified\<close>) and
  of \<open>protocol.print\<close> (\<open>printed\<close>), oldest first.
\<close>

record actor =
  name :: json
  cls :: actor_class
  processing :: "ActorRequest option"
  queue :: "ActorRequest list"
  tabState :: SessionState
  program :: json
  evaluateCapabilty :: "(ResultVariable, json) promise option"
  capabilities :: "(json, json) promise list"
  relayed :: "relay list"
  notified :: "(string \<times> json) list"
  printed :: "(string \<times> string) list"

text \<open>The constructor of \<open>Actor\<close>, before the constructor of the subclass sends anything.\<close>

definition new_Actor :: "json \<Rightarrow> actor_class \<Rightarrow> actor" where
  "new_Actor nm c =
     \<lparr>name = nm, cls = c, processing = None, queue = [], tabState = INITIALIZATION,
      program = JUndefined, evaluateCapabilty = None, capabilities = [], relayed = [], notified = [], printed = []\<rparr>"

definition respond :: "ActorRequest \<Rightarrow> json \<Rightarrow> actor \<Rightarrow> actor" where
  "respond r response a =
     a\<lparr>capabilities := (capabilities a)
          [capability r := settle (capabilities a ! capability r) (Fulfilled response)]\<rparr>"

definition fail :: "ActorRequest \<Rightarrow> json \<Rightarrow> actor \<Rightarrow> actor" where
  "fail r response a =
     a\<lparr>capabilities := (capabilities a)
          [capability r := settle (capabilities a ! capability r) (Rejected response)]\<rparr>"

text \<open>\<open>if (body.to === undefined) body.to = this.name\<close>.\<close>

definition stamp_to :: "json \<Rightarrow> json \<Rightarrow> json" where
  "stamp_to nm b = (if get b ''to'' = JUndefined then set_prop b ''to'' nm else b)"

text \<open>
  \<open>sendRequest(body)\<close>. The promise it returns is settled as the capability of the new
  request is; the result here is the index of that capability.
\<close>

definition sendRequest :: "json \<Rightarrow> actor \<Rightarrow> nat \<times> actor" where
  "sendRequest b a =
     (let request = \<lparr>request_body = stamp_to (name a) b, capability = length (capabilities a)\<rparr>;
          a = a\<lparr>capabilities := capabilities a @ [Pending]\<rparr>
      in (capability request,
          case processing a of
            Some p \<Rightarrow> a\<lparr>queue := queue a @ [request]\<rparr>
          | None \<Rightarrow> a\<lparr>processing := Some request, relayed := relayed a @ [Request request]\<rparr>))"

definition sendMessage :: "json \<Rightarrow> actor \<Rightarrow> actor" where
  "sendMessage b a = a\<lparr>relayed := relayed a @ [Message (stamp_to (name a) b)]\<rparr>"

definition sendNext :: "actor \<Rightarrow> actor" where
  "sendNext a =
     (case queue a of
        r # rest \<Rightarrow> a\<lparr>processing := Some r, queue := rest, relayed := relayed a @ [Request r]\<rparr>
      | [] \<Rightarrow> a\<lparr>processing := None\<rparr>)"

text \<open>\<open>Actor.processResponse\<close> and \<open>Actor.processError\<close> of the base class.\<close>

definition processResponse :: "json \<Rightarrow> actor \<Rightarrow> bool \<times> actor" where
  "processResponse b a =
     (case processing a of
        None \<Rightarrow> (False, a)
      | Some r \<Rightarrow> (True, sendNext (respond r b a)))"

definition Actor_processError :: "json \<Rightarrow> actor \<Rightarrow> bool \<times> actor" where
  "Actor_processError b a =
     (case processing a of
        None \<Rightarrow> (False, a)
      | Some r \<Rightarrow> (True, sendNext (fail r b a)))"

section \<open>Formatting of values (ffSession: class ContextActor)\<close>

text \<open>
  The conversion of a value to a string that a template literal and \<open>Array.join\<close> apply.
  An integer is printed in base ten (JavaScript does so below \<open>10^21\<close>).
\<close>

definition number_text :: "int \<Rightarrow> string" where
  "number_text n =
     (if n < 0 then CHR ''-'' # map (\<lambda>b. char_of (unat b)) (decimal (nat (- n)))
      else map (\<lambda>b. char_of (unat b)) (decimal (nat n)))"

fun join :: "string \<Rightarrow> string list \<Rightarrow> string" where
  "join sep [] = []"
| "join sep [x] = x"
| "join sep (x # y # ys) = x @ sep @ join sep (y # ys)"

fun ToString :: "json \<Rightarrow> string" where
  "ToString JUndefined = ''undefined''"
| "ToString JNull = ''null''"
| "ToString (JBool b) = (if b then ''true'' else ''false'')"
| "ToString (JNum n) = number_text n"
| "ToString (JStr s) = s"
| "ToString (JArr xs) =
     join '','' (map (\<lambda>x. if x = JUndefined \<or> x = JNull then [] else ToString x) xs)"
| "ToString (JObj kvs) = ''[object Object]''"

text \<open>
  \<open>JSON.stringify\<close> on a value that is not an object: \<open>undefined\<close> for \<open>undefined\<close>,
  otherwise the JSON text, a string in double quotes with its escapes.
\<close>

definition hex_digit :: "nat \<Rightarrow> char" where
  "hex_digit n = ''0123456789abcdef'' ! n"

definition escape_char :: "char \<Rightarrow> string" where
  "escape_char c =
     (if c = CHR 0x22 then [CHR 0x5C, CHR 0x22]
      else if c = CHR 0x5C then [CHR 0x5C, CHR 0x5C]
      else if c = CHR 0x08 then [CHR 0x5C, CHR ''b'']
      else if c = CHR 0x0C then [CHR 0x5C, CHR ''f'']
      else if c = CHR 0x0A then [CHR 0x5C, CHR ''n'']
      else if c = CHR 0x0D then [CHR 0x5C, CHR ''r'']
      else if c = CHR 0x09 then [CHR 0x5C, CHR ''t'']
      else if of_char c < (0x20 :: nat)
        then [CHR 0x5C, CHR ''u'', CHR ''0'', CHR ''0'',
              hex_digit (of_char c div 16), hex_digit (of_char c mod 16)]
      else [c])"

definition stringify :: "json \<Rightarrow> json" where
  "stringify v =
     (case v of
        JUndefined \<Rightarrow> JUndefined
      | JStr s \<Rightarrow> JStr ([CHR 0x22] @ concat (map escape_char s) @ [CHR 0x22])
      | _ \<Rightarrow> JStr (ToString v))"

text \<open>\<open>ContextActor.formatGrip\<close>, \<open>getActor\<close> and \<open>formatReturnValue\<close>.\<close>

definition formatGrip :: "json \<Rightarrow> json" where
  "formatGrip value =
     (if \<not> is_object value then stringify value
      else if get value ''type'' \<in> {JStr ''null'', JStr ''undefined'', JStr ''Infinity'',
                                   JStr ''-Infinity'', JStr ''NaN'', JStr ''-0''}
        then get value ''type''
      else if get value ''type'' = JStr ''longString'' then get value ''initial''
      else JStr (''[object '' @ ToString (get value ''class'') @ '']''))"

definition getActor :: "json \<Rightarrow> json" where
  "getActor value =
     (if is_object value \<and> get value ''type'' = JStr ''object'' then get value ''actor''
      else JUndefined)"

definition formatReturnValue :: "json \<Rightarrow> error + ResultVariable" where
  "formatReturnValue value =
     (case read_prop value ''terminated'' of
        Inl e \<Rightarrow> Inl e
      | Inr terminated \<Rightarrow>
          if truthy terminated then Inr \<lparr>display = JStr ''(terminated)'', id' = JUndefined\<rparr>
          else if truthy (get value ''throw'') then
            let s = formatGrip (get value ''throw'')
            in Inr \<lparr>display = JStr (''(error: '' @ ToString s @ '')''),
                    id' = getActor (get value ''throw'')\<rparr>
          else Inr \<lparr>display = formatGrip (get value ''return''),
                    id' = getActor (get value ''return'')\<rparr>)"

section \<open>URL helpers (ffUrlHelper)\<close>

text \<open>
  \<open>LocalURLHelper.convertToLocal\<close>. The argument is whatever the notification holds in
  \<open>source.url\<close>. A string has \<open>indexOf\<close> and \<open>substring\<close>; an array has \<open>indexOf\<close> (the
  index of an element) and no \<open>substring\<close>; on any other value the call of \<open>indexOf\<close>
  throws.
\<close>

definition LocalURLHelper_convertToLocal :: "json \<Rightarrow> error + json" where
  "LocalURLHelper_convertToLocal url_string =
     (case url_string of
        JStr s \<Rightarrow>
          if take (length ''file:///'') s \<noteq> ''file:///'' then Inr url_string
          else Inr (JStr (drop (length ''file://'') s))
      | JArr xs \<Rightarrow>
          if take 1 xs \<noteq> [JStr ''file:///''] then Inr url_string else Inl TypeError
      | _ \<Rightarrow> Inl TypeError)"

text \<open>
  \<open>HttpURLHelper.convertToLocal\<close>. The parameters are the platform's functions:
  \<open>url_pathname u\<close> is \<open>url.parse(u).pathname\<close> (\<open>None\<close> is \<open>null\<close>) and \<open>path_join\<close> is
  \<open>path.join\<close>. \<open>url.parse\<close> throws on a value that is not a string.
\<close>

definition HttpURLHelper_convertToLocal ::
  "(string \<Rightarrow> string option) \<Rightarrow> (string \<Rightarrow> string \<Rightarrow> string) \<Rightarrow> string \<Rightarrow> json \<Rightarrow> error + json" where
  "HttpURLHelper_convertToLocal url_pathname path_join webRoot url_string =
     (case url_string of
        JStr s \<Rightarrow>
          (case url_pathname s of
             None \<Rightarrow> Inl TypeError
           | Some pathname \<Rightarrow> Inr (JStr (path_join webRoot (drop 1 pathname))))
      | _ \<Rightarrow> Inl TypeError)"

section \<open>Dispatch of an incoming message inside an actor\<close>

text \<open>
  \<open>processNotification\<close> of each class. The result \<open>Inl e\<close> is an exception, thrown before
  the actor has changed anything. The parameter \<open>convertToLocal\<close> is the method of
  \<open>protocol.urlHelper\<close>.
\<close>

definition ConsoleActor_processNotification :: "json \<Rightarrow> actor \<Rightarrow> error + bool \<times> actor" where
  "ConsoleActor_processNotification b a =
     (if get b ''type'' = JStr ''consoleAPICall'' \<or> get b ''type'' = JStr ''pageErrorCall'' then
        (case read_prop (get b ''message'') ''level'' of
           Inl e \<Rightarrow> Inl e
         | Inr level \<Rightarrow>
             let category = (if level = JStr ''error'' then ''stderr''
                             else if level = JStr ''warning'' then ''console'' else ''stdout'')
             in (case get (get b ''message'') ''arguments'' of
                   JArr xs \<Rightarrow>
                     Inr (True, a\<lparr>printed := printed a @ [(ToString (JArr xs), category)]\<rparr>)
                 | _ \<Rightarrow> Inl TypeError))
      else Inr (False, a))"

text \<open>
  On \<open>tabAttached\<close> the tab actor creates the context actor and registers it: another
  object and the actor map change, this actor's request queue does not.
\<close>

definition TabActor_processNotification :: "json \<Rightarrow> actor \<Rightarrow> error + bool \<times> actor" where
  "TabActor_processNotification b a =
     (if get b ''type'' = JStr ''tabAttached'' then Inr (True, a)
      else if get b ''type'' = JStr ''frameUpdate'' then Inr (True, a)
      else Inr (False, a))"

definition ContextActor_processNotification ::
  "(json \<Rightarrow> error + json) \<Rightarrow> json \<Rightarrow> actor \<Rightarrow> error + bool \<times> actor" where
  "ContextActor_processNotification convertToLocal b a =
     (if get b ''type'' = JStr ''paused'' then
        let reason = (if truthy (get b ''why'') then get (get b ''why'') ''type''
                      else get b ''why'')
        in if reason = JStr ''clientEvaluated'' then
             (case evaluateCapabilty a of
                None \<Rightarrow> Inl TypeError
              | Some c \<Rightarrow>
                  (case formatReturnValue (get (get b ''why'') ''frameFinished'') of
                     Inl e \<Rightarrow> Inl e
                   | Inr v \<Rightarrow> Inr (True, a\<lparr>evaluateCapabilty := Some (settle c (Fulfilled v))\<rparr>)))
           else Inr (True, a\<lparr>notified := notified a @
                                 [(''paused'', JObj [(''reason'', reason)])]\<rparr>)
      else if get b ''type'' = JStr ''resumed'' then Inr (True, a)
      else if get b ''type'' = JStr ''newGlobal'' then Inr (True, a)
      else if get b ''type'' = JStr ''newSource'' then
        (case read_prop (get b ''source'') ''url'' of
           Inl e \<Rightarrow> Inl e
         | Inr url \<Rightarrow>
             if \<not> truthy url then Inr (True, a)
             else (case convertToLocal url of
                     Inl e \<Rightarrow> Inl e
                   | Inr path \<Rightarrow>
                       if \<not> truthy path then Inr (True, a)
                       else Inr (True, a\<lparr>notified := notified a @
                              [(''source'', JObj [(''path'', path), (''url'', url),
                                                  (''id'', get (get b ''source'') ''actor'')])]\<rparr>)))
      else Inr (False, a))"

definition processNotification ::
  "(json \<Rightarrow> error + json) \<Rightarrow> json \<Rightarrow> actor \<Rightarrow> error + bool \<times> actor" where
  "processNotification convertToLocal b a =
     (case cls a of
        ConsoleActor \<Rightarrow> ConsoleActor_processNotification b a
      | TabActor \<Rightarrow> TabActor_processNotification b a
      | ContextActor \<Rightarrow> ContextActor_processNotification convertToLocal b a
      | _ \<Rightarrow> Inr (False, a))"

text \<open>
  \<open>processError\<close>: the context actor overrides it; \<open>new Error(body.message)\<close> is the
  reason with which the evaluate capability is rejected.
\<close>

definition ContextActor_processError :: "json \<Rightarrow> actor \<Rightarrow> bool \<times> actor" where
  "ContextActor_processError b a =
     (if get b ''error'' \<in> {JStr ''unknownFrame'', JStr ''notDebuggee'', JStr ''wrongState''} then
        (case evaluateCapabilty a of
           Some c \<Rightarrow> (True, a\<lparr>evaluateCapabilty := Some (settle c (Rejected (get b ''message'')))\<rparr>)
         | None \<Rightarrow> (False, a))
      else Actor_processError b a)"

definition processError :: "json \<Rightarrow> actor \<Rightarrow> bool \<times> actor" where
  "processError b a =
     (case cls a of
        ContextActor \<Rightarrow> ContextActor_processError b a
      | _ \<Rightarrow> Actor_processError b a)"

text \<open>\<open>Actor.processCommand\<close>, and the override of the root actor with its \<open>init\<close>.\<close>

definition Actor_processCommand ::
  "(json \<Rightarrow> error + json) \<Rightarrow> json \<Rightarrow> actor \<Rightarrow> error + bool \<times> actor" where
  "Actor_processCommand convertToLocal b a =
     (if truthy (get b ''type'') then processNotification convertToLocal b a
      else if truthy (get b ''error'') then Inr (processError b a)
      else Inr (processResponse b a))"

definition init :: "json \<Rightarrow> actor \<Rightarrow> actor" where
  "init b a = snd (sendRequest (JObj [(''type'', JStr ''listTabs'')]) (a\<lparr>tabState := SELECT_TAB\<rparr>))"

definition processCommand ::
  "(json \<Rightarrow> error + json) \<Rightarrow> json \<Rightarrow> actor \<Rightarrow> error + bool \<times> actor" where
  "processCommand convertToLocal b a =
     (if cls a = RootActor \<and> tabState a = INITIALIZATION then Inr (True, init b a)
      else Actor_processCommand convertToLocal b a)"

text \<open>
  The part of \<open>ContextActor.evaluate\<close> that runs at the call: a new capability replaces
  the field, and the frames are requested. The result is the index of the request's promise.
\<close>

definition evaluate :: "json \<Rightarrow> json \<Rightarrow> actor \<Rightarrow> nat \<times> actor" where
  "evaluate expr frame a =
     (let frame = (if frame = JUndefined then JNum 0 else frame)
      in sendRequest (JObj [(''type'', JStr ''frames''), (''startFrame'', frame), (''count'', JNum 1)])
           (a\<lparr>evaluateCapabilty := Some Pending\<rparr>))"

text \<open>
  The constructors of the session's long-lived actors: the root actor keeps the URL of
  the program, the console actor requests its
  listeners and the cached messages, the tab actor sends \<open>attach\<close>, the context actor
  sends \<open>attach\<close> and requests the sources.
\<close>

definition new_RootActor :: "json \<Rightarrow> json \<Rightarrow> actor" where
  "new_RootActor nm prog = (new_Actor nm RootActor)\<lparr>program := prog\<rparr>"

definition new_ConsoleActor :: "json \<Rightarrow> actor" where
  "new_ConsoleActor nm =
     (let listenFor = JArr [JStr ''PageError'', JStr ''ConsoleAPI''];
          a = new_Actor nm ConsoleActor;
          a = snd (sendRequest (JObj [(''type'', JStr ''startListeners''),
                                      (''listeners'', listenFor)]) a)
      in snd (sendRequest (JObj [(''type'', JStr ''getCachedMessages''),
                                 (''messageTypes'', listenFor)]) a))"

definition new_TabActor :: "json \<Rightarrow> actor" where
  "new_TabActor nm = sendMessage (JObj [(''type'', JStr ''attach'')]) (new_Actor nm TabActor)"

definition new_ContextActor :: "json \<Rightarrow> actor" where
  "new_ContextActor nm =
     snd (sendRequest (JObj [(''type'', JStr ''sources'')])
            (sendMessage (JObj [(''type'', JStr ''attach'')]) (new_Actor nm ContextActor)))"

text \<open>
  What happens to one actor, one event at a time: a call of one of its methods by its
  owner, or a message that the dispatcher hands to \<open>processCommand\<close>. An exception leaves
  the actor as it was.
\<close>

datatype event =
    SendRequest json
  | SendMessage json
  | Evaluate json json
  | ProcessCommand json

definition step :: "(json \<Rightarrow> error + json) \<Rightarrow> actor \<Rightarrow> event \<Rightarrow> actor" where
  "step convertToLocal a e =
     (case e of
        SendRequest b \<Rightarrow> snd (sendRequest b a)
      | SendMessage b \<Rightarrow> sendMessage b a
      | Evaluate expr frame \<Rightarrow> snd (evaluate expr frame a)
      | ProcessCommand b \<Rightarrow>
          (case processCommand convertToLocal b a of Inl e \<Rightarrow> a | Inr (handled, a') \<Rightarrow> a'))"

definition run :: "(json \<Rightarrow> error + json) \<Rightarrow> actor \<Rightarrow> event list \<Rightarrow> actor" where
  "run convertToLocal a es = foldl (step convertToLocal) a es"

subsection \<open>The order of an actor's requests\<close>

text \<open>The requests whose bodies the actor has passed to the transport, oldest first.\<close>

fun relayed_requests :: "relay list \<Rightarrow> ActorRequest list" where
  "relayed_requests [] = []"
| "relayed_requests (Request r # rs) = r # relayed_requests rs"
| "relayed_requests (Message b # rs) = relayed_requests rs"

text \<open>The requests that wait for a reply: the one in flight, then the queue.\<close>

definition pending :: "actor \<Rightarrow> ActorRequest list" where
  "pending a = (case processing a of None \<Rightarrow> [] | Some r \<Rightarrow> [r]) @ queue a"

text \<open>
  The invariant of the request queue. With \<open>n\<close> requests created and \<open>k\<close> of them no
  longer waiting: the waiting ones hold the capabilities \<open>k, ..., n - 1\<close> in this order,
  exactly the capabilities below \<open>k\<close> are settled, and the requests relayed so far are the
  first ones, all but those in the queue.
\<close>

definition fifo_inv :: "actor \<Rightarrow> bool" where
  "fifo_inv a =
     (let n = length (capabilities a); k = n - length (pending a)
      in length (pending a) \<le> n \<and>
         (processing a = None \<longrightarrow> queue a = []) \<and>
         map capability (pending a) = [k..<n] \<and>
         (\<forall>i<n. (capabilities a ! i \<noteq> Pending) = (i < k)) \<and>
         map capability (relayed_requests (relayed a)) = [0..<n - length (queue a)])"

section \<open>The debug session (ffDebug: class FirefoxDebugSession)\<close>

text \<open>
  The fields that \<open>disconnectRequest\<close> reads and writes. \<open>pausedCapability\<close> is the state
  of the promise of \<open>_pausedCapability\<close>, the resume gate. \<open>pendingSourceCapabilities\<close> is
  the table \<open>_pendingSourceCapabilities\<close>: its keys in the order of \<open>Object.keys\<close>, each
  with the state of the promise of its capability (\<open>getSourceId\<close> puts a fresh capability
  there and removes it once it is settled). Of the session, \<open>session_process\<close> tells
  whether \<open>launch\<close> has spawned a browser (\<open>None\<close>: \<open>_process\<close> is \<open>undefined\<close>; otherwise
  whether it still runs), and \<open>session_context\<close> is the context actor, which holds the
  evaluate capability and the promises of its requests. \<open>session_dropped\<close> tells that
  \<open>_session\<close> was set to \<open>null\<close>. \<open>front_end\<close> lists what was sent to the editor.
\<close>

datatype front_end_message = OutputEvent string | Response | Shutdown

record bridge =
  pausedCapability :: "(json, json) promise"
  pendingSourceCapabilities :: "(string \<times> (json, json) promise) list"
  session_process :: "bool option"
  session_context :: "actor option"
  session_dropped :: bool
  front_end :: "front_end_message list"

text \<open>
  The loop \<open>Object.keys(this._pendingSourceCapabilities).forEach(...)\<close>. Every entry of
  the table is a capability, an object, so the test \<open>if (this._pendingSourceCapabilities[key])\<close>
  succeeds; the body then calls \<open>this._pendingSourceCapabilities.reject\<close>, a property of
  the table itself, which is \<open>undefined\<close> or (for a path named \<open>reject\<close>) a capability,
  and not a function: the call throws.
\<close>

fun reject_pending_sources :: "(string \<times> (json, json) promise) list \<Rightarrow> error + unit" where
  "reject_pending_sources [] = Inr ()"
| "reject_pending_sources ((key, c) # rest) = Inl TypeError"

text \<open>\<open>FirefoxSession.stop\<close>: \<open>this._process.kill()\<close>.\<close>

definition stop :: "bool option \<Rightarrow> error + bool option" where
  "stop process = (case process of None \<Rightarrow> Inl TypeError | Some running \<Rightarrow> Inr (Some False))"

text \<open>
  \<open>disconnectRequest\<close>. An exception leaves the handler with what was done before it.
\<close>

definition disconnectRequest :: "bridge \<Rightarrow> (error + unit) \<times> bridge" where
  "disconnectRequest s =
     (let s = s\<lparr>pausedCapability := settle (pausedCapability s) (Rejected (JStr ''stopping''))\<rparr>
      in case reject_pending_sources (pendingSourceCapabilities s) of
           Inl e \<Rightarrow> (Inl e, s)
         | Inr u \<Rightarrow>
             let s = s\<lparr>front_end := front_end s @ [OutputEvent ''stopping'']\<rparr>
             in (case stop (session_process s) of
                   Inl e \<Rightarrow> (Inl e, s)
                 | Inr process \<Rightarrow>
                     (Inr (), s\<lparr>session_process := process, session_dropped := True,
                                front_end := front_end s @ [Response, Shutdown]\<rparr>)))"

section \<open>The dispatcher (ffSession: class FirefoxProtocolImpl)\<close>

text \<open>
  The actors are objects: the map \<open>_map\<close> and the closures of pending operations refer
  to the same actor. The objects created so far are kept in \<open>heap\<close>, and a reference is
  an index into it. \<open>actor_map\<close> is \<open>_map\<close>; its keys are property names, the string
  conversion of an actor's name. \<open>trace\<close> lists, in the order of time, the bodies
  written to the transport and the messages handed to \<open>onExecuteCommand\<close>.
\<close>

datatype io = Sent json | Received json

record protocol =
  heap :: "actor list"
  actor_map :: "string \<Rightarrow> nat option"
  contextActor :: "nat option"
  trace :: "io list"

text \<open>
  A new actor object: it goes to the end of the heap, and what its constructor relayed
  goes to the transport.
\<close>

definition construct :: "actor \<Rightarrow> protocol \<Rightarrow> nat \<times> protocol" where
  "construct a p =
     (length (heap p),
      p\<lparr>heap := heap p @ [a], trace := trace p @ map (\<lambda>r. Sent (relay_body r)) (relayed a)\<rparr>)"

definition addActor :: "nat \<Rightarrow> protocol \<Rightarrow> protocol" where
  "addActor this p = p\<lparr>actor_map := (actor_map p)(ToString (name (heap p ! this)) \<mapsto> this)\<rparr>"

definition removeActor :: "nat \<Rightarrow> protocol \<Rightarrow> protocol" where
  "removeActor this p = p\<lparr>actor_map := (actor_map p)(ToString (name (heap p ! this)) := None)\<rparr>"

text \<open>The constructor of \<open>FirefoxProtocolImpl\<close>: the map holds the root actor.\<close>

definition new_FirefoxProtocolImpl :: "json \<Rightarrow> protocol" where
  "new_FirefoxProtocolImpl prog =
     (let (root, p) = construct (new_RootActor (JStr ''root'') prog)
                        \<lparr>heap = [], actor_map = (\<lambda>k. None), contextActor = None, trace = []\<rparr>
      in addActor root p)"

text \<open>
  The actor \<open>this\<close> has run one of its methods and is now \<open>a'\<close>: what it relayed during
  the call has been written to the transport.
\<close>

definition update_actor :: "nat \<Rightarrow> actor \<Rightarrow> protocol \<Rightarrow> protocol" where
  "update_actor this a' p =
     p\<lparr>heap := (heap p)[this := a'],
       trace := trace p @
         map (\<lambda>r. Sent (relay_body r)) (drop (length (relayed (heap p ! this))) (relayed a'))\<rparr>"

text \<open>
  \<open>RootActor.selectTab\<close>, which runs when the \<open>listTabs\<close> request is fulfilled: the last
  tab with the URL of the program is taken, and a console actor and a tab actor are
  created and registered for it. An exception rejects the promise of the continuation
  and changes nothing.
\<close>

definition selectTab :: "nat \<Rightarrow> json \<Rightarrow> protocol \<Rightarrow> error + protocol" where
  "selectTab this b p =
     (case get b ''tabs'' of
        JArr tabs \<Rightarrow>
          if list_ex (\<lambda>tab. tab = JUndefined \<or> tab = JNull) tabs then Inl TypeError
          else (case rev (filter (\<lambda>tab. get tab ''url'' = program (heap p ! this)) tabs) of
                  [] \<Rightarrow> Inl TabNotFound
                | tabInfo # others \<Rightarrow>
                    let (console, p) = construct (new_ConsoleActor (get tabInfo ''consoleActor'')) p;
                        p = addActor console p;
                        (tab, p) = construct (new_TabActor (get tabInfo ''actor'')) p
                    in Inr (addActor tab p))
      | _ \<Rightarrow> Inl TypeError)"

text \<open>
  What a message does beyond the fields of the actor it is addressed to. A tab actor that
  receives \<open>tabAttached\<close> creates the context actor, makes it the context of the protocol
  and registers it. A root actor whose \<open>listTabs\<close> request (its only request, the first
  capability) has just been fulfilled selects the tab and becomes \<open>READY\<close>. The argument
  \<open>a\<close> is the actor before the message.
\<close>

definition reactions :: "json \<Rightarrow> nat \<Rightarrow> actor \<Rightarrow> protocol \<Rightarrow> protocol" where
  "reactions b this a p =
     (if cls a = TabActor \<and> get b ''type'' = JStr ''tabAttached'' then
        let (context, p) = construct (new_ContextActor (get b ''threadActor'')) p
        in addActor context (p\<lparr>contextActor := Some context\<rparr>)
      else if cls a = RootActor \<and> capabilities a \<noteq> [] \<and> capabilities a ! 0 = Pending then
        (case capabilities (heap p ! this) ! 0 of
           Fulfilled tabs \<Rightarrow>
             (case selectTab this tabs p of
                Inl e \<Rightarrow> p
              | Inr p \<Rightarrow> p\<lparr>heap := (heap p)[this := (heap p ! this)\<lparr>tabState := READY\<rparr>]\<rparr>)
         | _ \<Rightarrow> p)
      else p)"

text \<open>
  \<open>onExecuteCommand(body)\<close>. A message without sender or for a name that is not in the
  map is dropped. An exception thrown by the actor leaves everything as it was.
\<close>

definition onExecuteCommand ::
  "(json \<Rightarrow> error + json) \<Rightarrow> json \<Rightarrow> protocol \<Rightarrow> error + protocol" where
  "onExecuteCommand convertToLocal b p =
     (if \<not> truthy b \<or> \<not> truthy (get b ''from'') then Inr p
      else case actor_map p (ToString (get b ''from'')) of
             None \<Rightarrow> Inr p
           | Some this \<Rightarrow>
               (case processCommand convertToLocal b (heap p ! this) of
                  Inl e \<Rightarrow> Inl e
                | Inr (handled, a') \<Rightarrow>
                    Inr (reactions b this (heap p ! this) (update_actor this a' p))))"

section \<open>Operations that wait for replies\<close>

text \<open>
  An operation that returns a promise is written in direct style: it runs against the
  messages that arrive after its start, takes from them what it needs, and ends with an
  outcome: \<open>Done\<close> (the promise is fulfilled), \<open>Failed\<close> (it is rejected), \<open>Waiting\<close> (the
  messages ran out before the promise was settled) or \<open>Threw\<close> (an exception escaped,
  from the operation itself or from the handling of an incoming message). With the
  outcome come the messages not yet consumed and the state of the protocol.
\<close>

datatype 'a outcome = Waiting | Done 'a | Failed json | Threw error

type_synonym 'a operation = "json list \<Rightarrow> protocol \<Rightarrow> 'a outcome \<times> json list \<times> protocol"

text \<open>
  Waiting until the condition \<open>settled\<close> holds: the incoming messages are handed to
  \<open>onExecuteCommand\<close> one after the other.
\<close>

fun await ::
  "(json \<Rightarrow> error + json) \<Rightarrow> (protocol \<Rightarrow> bool) \<Rightarrow> json list \<Rightarrow> protocol
     \<Rightarrow> error option \<times> json list \<times> protocol" where
  "await convertToLocal settled [] p = (None, [], p)"
| "await convertToLocal settled (m # ms) p =
     (if settled p then (None, m # ms, p)
      else case onExecuteCommand convertToLocal m (p\<lparr>trace := trace p @ [Received m]\<rparr>) of
             Inl e \<Rightarrow> (Some e, ms, p\<lparr>trace := trace p @ [Received m]\<rparr>)
           | Inr p' \<Rightarrow> await convertToLocal settled ms p')"

text \<open>
  \<open>this.sendRequest(body)\<close> of the actor \<open>this\<close>, and the wait for the promise it
  returns.
\<close>

definition request :: "(json \<Rightarrow> error + json) \<Rightarrow> nat \<Rightarrow> json \<Rightarrow> json operation" where
  "request convertToLocal this b ms p =
     (let (k, a') = sendRequest b (heap p ! this);
          p = update_actor this a' p
      in case await convertToLocal (\<lambda>p. capabilities (heap p ! this) ! k \<noteq> Pending) ms p of
           (Some e, ms, p) \<Rightarrow> (Threw e, ms, p)
         | (None, ms, p) \<Rightarrow>
             (case capabilities (heap p ! this) ! k of
                Pending \<Rightarrow> (Waiting, ms, p)
              | Fulfilled response \<Rightarrow> (Done response, ms, p)
              | Rejected reason \<Rightarrow> (Failed reason, ms, p)))"

text \<open>
  \<open>Actor.executeOnce(action)\<close>: the actor is registered, the action runs, and when its
  promise is settled the actor is removed and the outcome passed on.
\<close>

definition executeOnce :: "nat \<Rightarrow> 'a operation \<Rightarrow> 'a operation" where
  "executeOnce this action ms p =
     (case action ms (addActor this p) of
        (Done result, ms, p) \<Rightarrow> (Done result, ms, removeActor this p)
      | (Failed reason, ms, p) \<Rightarrow> (Failed reason, ms, removeActor this p)
      | (Waiting, ms, p) \<Rightarrow> (Waiting, ms, p)
      | (Threw e, ms, p) \<Rightarrow> (Threw e, ms, p))"

subsection \<open>Removing breakpoints\<close>

text \<open>\<open>Breakpoint.remove\<close>.\<close>

definition remove :: "(json \<Rightarrow> error + json) \<Rightarrow> nat \<Rightarrow> json operation" where
  "remove convertToLocal this = request convertToLocal this (JObj [(''type'', JStr ''delete'')])"

text \<open>
  \<open>ContextActor.removeBreakpoints(ids)\<close>. The loop over \<open>ids\<close> creates a \<open>Breakpoint\<close>
  actor for each id and appends a callback to the chain of promises; the callbacks run
  one after the other, each when the promise of the one before is fulfilled. The chain
  is fulfilled with the last response (\<open>undefined\<close> for no id).
\<close>

fun new_Breakpoints :: "json list \<Rightarrow> protocol \<Rightarrow> nat list \<times> protocol" where
  "new_Breakpoints [] p = ([], p)"
| "new_Breakpoints (ident # ids) p =
     (let (breakpoint, p) = construct (new_Actor ident Breakpoint) p;
          (breakpoints, p) = new_Breakpoints ids p
      in (breakpoint # breakpoints, p))"

fun remove_chain :: "(json \<Rightarrow> error + json) \<Rightarrow> nat list \<Rightarrow> json \<Rightarrow> json operation" where
  "remove_chain convertToLocal [] previous ms p = (Done previous, ms, p)"
| "remove_chain convertToLocal (breakpoint # breakpoints) previous ms p =
     (case executeOnce breakpoint (remove convertToLocal breakpoint) ms p of
        (Done result, ms, p) \<Rightarrow> remove_chain convertToLocal breakpoints result ms p
      | (Failed reason, ms, p) \<Rightarrow> (Failed reason, ms, p)
      | (Waiting, ms, p) \<Rightarrow> (Waiting, ms, p)
      | (Threw e, ms, p) \<Rightarrow> (Threw e, ms, p))"

definition removeBreakpoints :: "(json \<Rightarrow> error + json) \<Rightarrow> json list \<Rightarrow> json operation" where
  "removeBreakpoints convertToLocal ids ms p =
     (let (breakpoints, p) = new_Breakpoints ids p
      in remove_chain convertToLocal breakpoints JUndefined ms p)"

subsection \<open>Adding breakpoints\<close>

text \<open>
  The two callbacks of \<open>SourceActor.addBreakpoint(line)\<close>: the entry for a response and
  the entry for a failed request.
\<close>

definition addBreakpoint_fulfilled :: "int \<Rightarrow> json \<Rightarrow> json" where
  "addBreakpoint_fulfilled line b =
     (let actualLine = (if truthy (get b ''actualLocation'')
                        then get (get b ''actualLocation'') ''line'' else JNum line);
          verified = \<not> truthy (get b ''isPending'');
          actor = get b ''actor''
      in JObj [(''id'', actor), (''line'', actualLine), (''verified'', JBool verified)])"

definition addBreakpoint_rejected :: "int \<Rightarrow> json \<Rightarrow> json" where
  "addBreakpoint_rejected line reason =
     JObj [(''id'', JUndefined), (''line'', JNum line), (''verified'', JBool False)]"

text \<open>
  The promise \<open>p.then(f, g)\<close> for callbacks that return a value and do not throw: it is
  fulfilled with the value of the callback that ran.
\<close>

definition then_value :: "('a, 'r) promise \<Rightarrow> ('a \<Rightarrow> 'b) \<Rightarrow> ('r \<Rightarrow> 'b) \<Rightarrow> ('b, 'r) promise" where
  "then_value p f g =
     (case p of Pending \<Rightarrow> Pending | Fulfilled v \<Rightarrow> Fulfilled (f v) | Rejected r \<Rightarrow> Fulfilled (g r))"

definition setBreakpoint_body :: "int \<Rightarrow> json" where
  "setBreakpoint_body line =
     JObj [(''type'', JStr ''setBreakpoint''), (''location'', JObj [(''line'', JNum line)])]"

text \<open>
  The action of \<open>addBreakpoints\<close>: \<open>lines.map\<close> calls \<open>addBreakpoint\<close> for every line, which
  sends (or queues) the request at once; \<open>Promise.all\<close> then waits until every promise is
  settled. The promises are those of the capabilities that the requests created, from
  index \<open>k\<close> on.
\<close>

fun send_all :: "nat \<Rightarrow> int list \<Rightarrow> protocol \<Rightarrow> protocol" where
  "send_all this [] p = p"
| "send_all this (line # lines) p =
     send_all this lines
       (update_actor this (snd (sendRequest (setBreakpoint_body line) (heap p ! this))) p)"

definition entries :: "nat \<Rightarrow> nat \<Rightarrow> int list \<Rightarrow> protocol \<Rightarrow> (json, json) promise list" where
  "entries this k lines p =
     map (\<lambda>(line, c). then_value c (addBreakpoint_fulfilled line) (addBreakpoint_rejected line))
       (zip lines (drop k (capabilities (heap p ! this))))"

fun fulfilled_values :: "('a, 'r) promise list \<Rightarrow> 'a list option" where
  "fulfilled_values [] = Some []"
| "fulfilled_values (Fulfilled v # ps) = map_option (\<lambda>vs. v # vs) (fulfilled_values ps)"
| "fulfilled_values (p # ps) = None"

definition addBreakpoints_action ::
  "(json \<Rightarrow> error + json) \<Rightarrow> nat \<Rightarrow> int list \<Rightarrow> json list operation" where
  "addBreakpoints_action convertToLocal this lines ms p =
     (let k = length (capabilities (heap p ! this));
          p = send_all this lines p
      in case await convertToLocal
                (\<lambda>p. fulfilled_values (entries this k lines p) \<noteq> None) ms p of
           (Some e, ms, p) \<Rightarrow> (Threw e, ms, p)
         | (None, ms, p) \<Rightarrow>
             (case fulfilled_values (entries this k lines p) of
                None \<Rightarrow> (Waiting, ms, p)
              | Some items \<Rightarrow> (Done items, ms, p)))"

definition addBreakpoints ::
  "(json \<Rightarrow> error + json) \<Rightarrow> json \<Rightarrow> int list \<Rightarrow> json list operation" where
  "addBreakpoints convertToLocal sourceId lines ms p =
     (let (source, p) = construct (new_Actor sourceId SourceActor) p
      in executeOnce source (addBreakpoints_action convertToLocal source lines) ms p)"

subsection \<open>Replacing the breakpoints of a path\<close>

text \<open>
  The part of \<open>setBreakPointsRequest\<close> that runs once the source id and the resume gate
  are there: the old breakpoints, if any, are removed, then the new ones are added.
\<close>

definition setBreakPoints ::
  "(json \<Rightarrow> error + json) \<Rightarrow> json \<Rightarrow> json list \<Rightarrow> int list \<Rightarrow> json list operation" where
  "setBreakPoints convertToLocal sourceId oldBreakpointsIds lines ms p =
     (case (if oldBreakpointsIds \<noteq> [] then removeBreakpoints convertToLocal oldBreakpointsIds ms p
            else (Done JUndefined, ms, p)) of
        (Done removed, ms, p) \<Rightarrow> addBreakpoints convertToLocal sourceId lines ms p
      | (Failed reason, ms, p) \<Rightarrow> (Failed reason, ms, p)
      | (Waiting, ms, p) \<Rightarrow> (Waiting, ms, p)
      | (Threw e, ms, p) \<Rightarrow> (Threw e, ms, p))"

subsection \<open>Conversations with the server\<close>

text \<open>
  How a reply settles the promise of the request it answers: \<open>processError\<close> rejects with the
  packet, \<open>processResponse\<close> resolves with it.
\<close>

definition reply_outcome :: "json \<Rightarrow> (json, json) promise" where
  "reply_outcome r = (if truthy (get r ''error'') then Rejected r else Fulfilled r)"

text \<open>
  The actor classes that inherit \<open>processCommand\<close>, \<open>processNotification\<close> and
  \<open>processError\<close> from \<open>Actor\<close> unchanged.
\<close>

definition plain :: "actor_class \<Rightarrow> bool" where
  "plain c = (c = EnvironmentActor \<or> c = GripActor \<or> c = SourceActor \<or> c = Breakpoint)"

text \<open>
  An actor after the reply \<open>r\<close> to its request in flight: the promise of that request is
  settled and the next request of the queue is relayed.
\<close>

definition replied :: "json \<Rightarrow> actor \<Rightarrow> actor" where
  "replied r a =
     (case processing a of
        None \<Rightarrow> a
      | Some q \<Rightarrow> sendNext (a\<lparr>capabilities := (capabilities a)
                    [capability q := settle (capabilities a ! capability q) (reply_outcome r)]\<rparr>))"

text \<open>
  The requests of a queue hold the capabilities \<open>k, k + 1, ...\<close> in this order.
\<close>

fun consecutive :: "nat \<Rightarrow> ActorRequest list \<Rightarrow> bool" where
  "consecutive k [] = True"
| "consecutive k (q # qs) = (capability q = k \<and> consecutive (Suc k) qs)"

text \<open>
  An actor with the request \<open>q\<close> in flight and \<open>qs\<close> waiting, whose earlier
  promises \<open>ds\<close> are all settled.
\<close>

definition serving :: "actor \<Rightarrow> (json, json) promise list \<Rightarrow> ActorRequest \<Rightarrow> ActorRequest list \<Rightarrow> bool" where
  "serving a ds q qs =
     (plain (cls a) \<and> processing a = Some q \<and> queue a = qs \<and>
      capabilities a = ds @ replicate (Suc (length qs)) Pending \<and>
      capability q = length ds \<and>
      consecutive (Suc (length ds)) qs \<and>
      Pending \<notin> set ds)"

text \<open>
  The traffic of a strictly alternating conversation: each request is followed by its
  reply before the next request is sent.
\<close>

fun exchange :: "json list \<Rightarrow> json list \<Rightarrow> io list" where
  "exchange (b # bs) (r # rs) = Sent b # Received r # exchange bs rs"
| "exchange bs rs = []"

text \<open>
  The requests that \<open>addBreakpoint\<close> creates for the lines after the first one.
\<close>

fun queued :: "json \<Rightarrow> nat \<Rightarrow> int list \<Rightarrow> ActorRequest list" where
  "queued nm k [] = []"
| "queued nm k (line # lines) =
     \<lparr>request_body = stamp_to nm (setBreakpoint_body line), capability = k\<rparr> # queued nm (Suc k) lines"

text \<open>
  The entry that \<open>addBreakpoint\<close> yields for a line once the server has replied with
  \<open>r\<close>.
\<close>

definition item :: "int \<Rightarrow> json \<Rightarrow> json" where
  "item line r =
     (if truthy (get r ''error'') then addBreakpoint_rejected line r
      else addBreakpoint_fulfilled line r)"

text \<open>
  The packet of \<open>Breakpoint.remove\<close> as it reaches the transport.
\<close>

definition delete_request :: "json \<Rightarrow> json" where
  "delete_request ident = JObj [(''type'', JStr ''delete''), (''to'', ident)]"

text \<open>
  The packet of \<open>SourceActor.addBreakpoint\<close> as it reaches the transport.
\<close>

definition setBreakpoint_request :: "json \<Rightarrow> int \<Rightarrow> json" where
  "setBreakpoint_request sourceId line =
     JObj [(''type'', JStr ''setBreakpoint''), (''location'', JObj [(''line'', JNum line)]),
           (''to'', sourceId)]"

text \<open>
  A packet from \<open>sender\<close> that the dispatcher treats as a response: no \<open>type\<close>, no
  \<open>error\<close>.
\<close>

definition is_response :: "json \<Rightarrow> json \<Rightarrow> bool" where
  "is_response sender r =
     (truthy sender \<and> get r ''from'' = sender \<and> \<not> truthy (get r ''type'') \<and>
      \<not> truthy (get r ''error''))"

text \<open>
  A packet from \<open>sender\<close> that answers a request, as a response or as an error.
\<close>

definition is_reply :: "json \<Rightarrow> json \<Rightarrow> bool" where
  "is_reply sender r = (truthy sender \<and> get r ''from'' = sender \<and> \<not> truthy (get r ''type''))"

section \<open>Properties of the framed transport\<close>

lemma scan_digits_takeWhile:
  "scan_digits buffer pos = pos + length (takeWhile is_digit (drop pos buffer))"
proof (induction buffer pos rule: scan_digits.induct)
  case (1 buffer i)
  show ?case
  proof (cases "i < length buffer \<and> is_digit (buffer ! i)")
    case True
    then have d: "drop i buffer = buffer ! i # drop (Suc i) buffer"
      by (simp add: Cons_nth_drop_Suc)
    from 1 True have "scan_digits buffer (Suc i) = Suc i + length (takeWhile is_digit (drop (Suc i) buffer))"
      by blast
    with True d show ?thesis by (subst scan_digits.simps) simp
  next
    case False
    show ?thesis
    proof (cases "i < length buffer")
      case True
      with False have nd: "\<not> is_digit (buffer ! i)" by simp
      from True have d: "drop i buffer = buffer ! i # drop (Suc i) buffer"
        by (simp add: Cons_nth_drop_Suc)
      from nd d True show ?thesis by (subst scan_digits.simps) simp
    next
      case False
      then show ?thesis by (subst scan_digits.simps) simp
    qed
  qed
qed

lemma digit_byte: "d < 10 \<Longrightarrow> is_digit (0x30 + of_nat d)"
proof -
  assume "d < 10"
  then have "d = 0 \<or> d = 1 \<or> d = 2 \<or> d = 3 \<or> d = 4 \<or> d = 5 \<or> d = 6 \<or> d = 7 \<or> d = 8 \<or> d = 9"
    by arith
  then show ?thesis by (auto simp: is_digit_def)
qed

lemma digit_value: "d < 10 \<Longrightarrow> unat (of_nat d :: byte) = d"
  by (simp add: unat_of_nat)

lemma decimal_digits: "list_all is_digit (decimal n)"
proof (induction n rule: decimal.induct)
  case (1 n)
  show ?case
  proof (cases "n < 10")
    case True
    then show ?thesis by (subst decimal.simps) (simp add: digit_byte)
  next
    case False
    with 1 have "list_all is_digit (decimal (n div 10))" by simp
    then show ?thesis using False by (subst decimal.simps) (simp add: digit_byte)
  qed
qed

lemma decimal_nonempty: "decimal n \<noteq> []"
  by (subst decimal.simps) simp

lemma number_of_digits_snoc:
  "number_of_digits (ds @ [b]) = 10 * number_of_digits ds + unat (b - 0x30)"
  by (simp add: number_of_digits_def)

lemma number_of_decimal: "number_of_digits (decimal n) = n"
proof (induction n rule: decimal.induct)
  case (1 n)
  show ?case
  proof (cases "n < 10")
    case True
    then show ?thesis
      by (subst decimal.simps) (simp add: number_of_digits_def digit_value)
  next
    case False
    with 1 have "number_of_digits (decimal (n div 10)) = n div 10" by simp
    then show ?thesis using False
      by (subst decimal.simps) (simp add: number_of_digits_snoc digit_value)
  qed
qed

lemma colon_not_digit: "\<not> is_digit 0x3a"
  by (simp add: is_digit_def)

lemma takeWhile_digits:
  "list_all is_digit ds \<Longrightarrow> takeWhile is_digit (ds @ 0x3a # xs) = ds"
  by (induction ds) (simp_all add: colon_not_digit)

lemma slice_mid: "slice (pre @ xs @ suf) (length pre) (length pre + length xs) = xs"
  by (simp add: slice_def)

lemma parse_packet:
  assumes "scan_digits buffer pos = i" and "i < length buffer" and "i \<noteq> pos"
    and "buffer ! i = 0x3a" and "number_of_digits (slice buffer pos i) = n"
    and "Suc i + n \<le> length buffer" and "slice buffer (Suc i) (Suc i + n) = p"
  shows "parseFirefoxPacket JSON_parse buffer pos =
           (if p = [] then Inr (Some \<lparr>lastPos = Suc i + n, body = None\<rparr>)
            else case JSON_parse p of
                   Inl e \<Rightarrow> Inl e
                 | Inr v \<Rightarrow> Inr (Some \<lparr>lastPos = Suc i + n, body = Some v\<rparr>))"
  using assms by (simp add: parseFirefoxPacket_def Let_def)

lemma parse_short:
  assumes "scan_digits buffer pos = i" and "i < length buffer" and "i \<noteq> pos"
    and "buffer ! i = 0x3a" and "number_of_digits (slice buffer pos i) = n"
    and "length buffer < Suc i + n"
  shows "parseFirefoxPacket JSON_parse buffer pos = Inr None"
  using assms by (simp add: parseFirefoxPacket_def Let_def)

lemma parse_header_end:
  assumes "scan_digits buffer pos = i" and "length buffer \<le> i"
  shows "parseFirefoxPacket JSON_parse buffer pos = Inr None"
  using assms by (simp add: parseFirefoxPacket_def Let_def)

lemma parse_complete:
  assumes "complete_frame f"
  shows "parseFirefoxPacket JSON_parse (pre @ frame_bytes f @ suf) (length pre) =
           (if snd f = [] then Inr (Some \<lparr>lastPos = length pre + length (frame_bytes f), body = None\<rparr>)
            else case JSON_parse (snd f) of
                   Inl e \<Rightarrow> Inl e
                 | Inr v \<Rightarrow> Inr (Some \<lparr>lastPos = length pre + length (frame_bytes f), body = Some v\<rparr>))"
proof -
  obtain ds p where f: "f = (ds, p)" by (cases f)
  from assms f have ds: "ds \<noteq> []" "list_all is_digit ds" "number_of_digits ds = length p"
    by (simp_all add: complete_frame_def)
  define buffer where "buffer = pre @ frame_bytes f @ suf"
  define i where "i = length pre + length ds"
  have buf: "buffer = pre @ ds @ 0x3a # p @ suf" by (simp add: buffer_def f frame_bytes_def)
  have scan: "scan_digits buffer (length pre) = i"
    by (simp add: scan_digits_takeWhile buf takeWhile_digits ds i_def)
  have at: "buffer ! i = 0x3a"
    by (simp add: buf nth_append i_def)
  have s1: "slice buffer (length pre) i = ds"
    using slice_mid [of pre ds "0x3a # p @ suf"] by (simp add: buf i_def)
  have s2: "slice buffer (Suc i) (Suc i + length p) = p"
    using slice_mid [of "pre @ ds @ [0x3a]" p suf] by (simp add: buf i_def)
  have len: "length buffer = Suc i + length p + length suf"
    by (simp add: buf i_def)
  have last: "Suc i + length p = length pre + length (frame_bytes f)"
    by (simp add: i_def f frame_bytes_def)
  have "parseFirefoxPacket JSON_parse buffer (length pre) =
           (if p = [] then Inr (Some \<lparr>lastPos = Suc i + length p, body = None\<rparr>)
            else case JSON_parse p of
                   Inl e \<Rightarrow> Inl e
                 | Inr v \<Rightarrow> Inr (Some \<lparr>lastPos = Suc i + length p, body = Some v\<rparr>))"
  proof (rule parse_packet [OF scan _ _ at _ _ s2])
    show "i < length buffer" by (simp add: len)
    show "i \<noteq> length pre" using ds(1) by (simp add: i_def)
    show "number_of_digits (slice buffer (length pre) i) = length p" by (simp add: s1 ds)
    show "Suc i + length p \<le> length buffer" by (simp add: len)
  qed
  then show ?thesis
    unfolding last buffer_def by (simp add: f)
qed

lemma parse_partial:
  assumes "partial_frame rest"
  shows "parseFirefoxPacket JSON_parse (pre @ rest) (length pre) = Inr None"
proof -
  define ds where "ds = takeWhile is_digit rest"
  define r where "r = dropWhile is_digit rest"
  have rest: "rest = ds @ r" by (simp add: ds_def r_def)
  have scan: "scan_digits (pre @ rest) (length pre) = length pre + length ds"
    by (simp add: scan_digits_takeWhile ds_def)
  show ?thesis
  proof (cases "r = []")
    case True
    then have "length (pre @ rest) \<le> length pre + length ds" by (simp add: rest)
    with scan show ?thesis by (rule parse_header_end)
  next
    case False
    have "r = [] \<or> (ds \<noteq> [] \<and> hd r = 0x3a \<and> length (tl r) < number_of_digits ds)"
      using assms unfolding partial_frame_def Let_def ds_def r_def .
    with False have p: "ds \<noteq> []" "hd r = 0x3a" "length (tl r) < number_of_digits ds"
      by blast+
    from False p(2) obtain body where r: "r = 0x3a # body" by (cases r) auto
    have buf: "pre @ rest = pre @ ds @ 0x3a # body" by (simp add: rest r)
    have at: "(pre @ rest) ! (length pre + length ds) = 0x3a"
      by (simp add: buf nth_append)
    have s1: "slice (pre @ rest) (length pre) (length pre + length ds) = ds"
      using slice_mid [of pre ds "0x3a # body"] by (simp add: buf)
    have "length rest = length (ds @ 0x3a # body)" using rest r by simp
    then have len: "length rest = Suc (length ds + length body)" by simp
    from p(3) r have short: "length body < number_of_digits ds" by simp
    show ?thesis
    proof (rule parse_short [OF scan _ _ at])
      show "length pre + length ds < length (pre @ rest)" by (simp add: len)
      show "length pre + length ds \<noteq> length pre" using p(1) by simp
      show "number_of_digits (slice (pre @ rest) (length pre) (length pre + length ds)) =
              number_of_digits ds" by (simp add: s1)
      show "length (pre @ rest) < Suc (length pre + length ds) + number_of_digits ds"
        using short by (simp add: len)
    qed
  qed
qed

lemma data_loop_frames:
  assumes "list_all complete_frame fs" and "list_all (parses JSON_parse) fs"
    and "partial_frame rest"
  shows "data_loop JSON_parse (pre @ concat (map frame_bytes fs) @ rest) (length pre) ex =
           (ex @ map (message_of JSON_parse) fs,
            Inr (length pre + length (concat (map frame_bytes fs))))"
  using assms(1,2)
proof (induction fs arbitrary: pre ex)
  case Nil
  show ?case
  proof (cases "rest = []")
    case True
    then show ?thesis by (subst data_loop.simps) simp
  next
    case False
    then show ?thesis
      by (subst data_loop.simps) (simp add: parse_partial [OF assms(3)])
  qed
next
  case (Cons f fs)
  then have cf: "complete_frame f" and pf: "parses JSON_parse f"
    and cfs: "list_all complete_frame fs" and pfs: "list_all (parses JSON_parse) fs"
    by simp_all
  define suf where "suf = concat (map frame_bytes fs) @ rest"
  have buf: "pre @ concat (map frame_bytes (f # fs)) @ rest = pre @ frame_bytes f @ suf"
    by (simp add: suf_def)
  have pos: "length pre < length (pre @ frame_bytes f @ suf)"
    by (simp add: frame_bytes_def)
  have parse: "parseFirefoxPacket JSON_parse (pre @ frame_bytes f @ suf) (length pre) =
                 Inr (Some \<lparr>lastPos = length pre + length (frame_bytes f),
                             body = message_of JSON_parse f\<rparr>)"
    using pf by (auto simp: parse_complete [OF cf] parses_def message_of_def split: sum.splits)
  have ih: "data_loop JSON_parse ((pre @ frame_bytes f) @ concat (map frame_bytes fs) @ rest)
              (length (pre @ frame_bytes f)) (ex @ [message_of JSON_parse f]) =
            ((ex @ [message_of JSON_parse f]) @ map (message_of JSON_parse) fs,
             Inr (length (pre @ frame_bytes f) + length (concat (map frame_bytes fs))))"
    by (rule Cons.IH [OF cfs pfs])
  have step: "data_loop JSON_parse (pre @ frame_bytes f @ suf) (length pre) ex =
              data_loop JSON_parse (pre @ frame_bytes f @ suf)
                (length pre + length (frame_bytes f)) (ex @ [message_of JSON_parse f])"
    using pos by (subst data_loop.simps) (simp add: parse)
  show ?case
    unfolding buf step using ih by (simp add: suf_def)
qed



lemma on_data_frames:
  assumes "list_all complete_frame fs" and "list_all (parses JSON_parse) fs"
    and "partial_frame rest"
    and "ffBuffer t @ data = concat (map frame_bytes fs) @ rest"
  shows "on_data JSON_parse t data =
           (Inr (), t\<lparr>executed := executed t @ map (message_of JSON_parse) fs,
                       ffBuffer := rest\<rparr>)"
proof -
  define n where "n = length (concat (map frame_bytes fs))"
  have loop: "data_loop JSON_parse (ffBuffer t @ data) 0 (executed t) =
                (executed t @ map (message_of JSON_parse) fs, Inr n)"
    using data_loop_frames [OF assms(1-3), of "[]" "executed t"]
    by (simp add: assms(4) n_def)
  have len: "length (ffBuffer t @ data) = n + length rest"
    unfolding assms(4) n_def by simp
  have keep: "(if n < length (ffBuffer t @ data)
               then slice (ffBuffer t @ data) n (length (ffBuffer t @ data))
               else if length (ffBuffer t) > 0 then [] else ffBuffer t) = rest"
  proof (cases "rest = []")
    case True
    then show ?thesis using len by auto
  next
    case False
    have "slice (ffBuffer t @ data) n (length (ffBuffer t @ data)) = rest"
      unfolding assms(4) slice_def by (simp add: n_def)
    with False len show ?thesis by simp
  qed
  show ?thesis
    unfolding on_data_def Let_def loop using keep by simp
qed

text \<open>
  C2. For every inbound data chunk: when the accumulated buffer (the retained bytes followed
  by the chunk) consists of complete frames with JSON bodies followed by a partial frame
  (nothing, a run of digits, or digits and a colon with fewer body bytes than declared),
  the read callback calls \<open>onExecuteCommand\<close> once for each complete frame, in buffer
  order, and retains exactly the bytes of the partial frame. Since the next chunk is
  appended to these retained bytes, the partial frame is completed by later data.
\<close>

theorem on_data_dispatches_complete_frames:
  assumes "list_all complete_frame fs" and "list_all (parses JSON_parse) fs"
    and "partial_frame rest"
    and "ffBuffer t @ data = concat (map frame_bytes fs) @ rest"
  shows "on_data JSON_parse t data =
           (Inr (), t\<lparr>executed := executed t @ map (message_of JSON_parse) fs,
                       ffBuffer := rest\<rparr>)"
  using assms by (rule on_data_frames)

theorem on_data_dispatches_complete_frames_witness:
  "on_data (\<lambda>bs. Inr bs :: error + byte list) \<lparr>ffBuffer = [0x32], executed = []\<rparr>
     [0x3a, 0x7b, 0x7d, 0x30, 0x3a, 0x31, 0x32, 0x3a, 0x7b] =
   (Inr (), \<lparr>ffBuffer = [0x31, 0x32, 0x3a, 0x7b], executed = [Some [0x7b, 0x7d], None]\<rparr>)"
proof -
  let ?fs = "[([0x32], [0x7b, 0x7d]), ([0x30], [])] :: (byte list \<times> byte list) list"
  let ?P = "\<lambda>bs. Inr bs :: error + byte list"
  let ?rest = "[0x31, 0x32, 0x3a, 0x7b] :: byte list"
  let ?t = "\<lparr>ffBuffer = [0x32 :: byte], executed = [] :: byte list option list\<rparr>"
  let ?data = "[0x3a, 0x7b, 0x7d, 0x30, 0x3a, 0x31, 0x32, 0x3a, 0x7b] :: byte list"
  have 1: "list_all complete_frame ?fs"
    by (simp add: complete_frame_def is_digit_def number_of_digits_def)
  have 2: "list_all (parses ?P) ?fs" by (simp add: parses_def)
  have 3: "partial_frame ?rest"
    by (simp add: partial_frame_def is_digit_def number_of_digits_def)
  have 4: "ffBuffer ?t @ ?data = concat (map frame_bytes ?fs) @ ?rest"
    by (simp add: frame_bytes_def)
  show ?thesis
    using on_data_dispatches_complete_frames [OF 1 2 3 4]
    by (simp add: message_of_def)
qed










text \<open>
  C4. For a message body that \<open>JSON.parse\<close> restores from its \<open>JSON.stringify\<close> text
  (a JSON text is never empty), the bytes written by \<open>sendResponse\<close> are parsed back by
  \<open>parseFirefoxPacket\<close> into that body, consuming all the bytes; fed to the read callback
  of an empty transport they execute exactly that body.
\<close>

theorem framing_round_trip:
  assumes "JSON_parse (JSON_stringify msg) = Inr msg" and "JSON_stringify msg \<noteq> []"
  shows "parseFirefoxPacket JSON_parse (sendResponse JSON_stringify msg) 0 =
           Inr (Some \<lparr>lastPos = length (sendResponse JSON_stringify msg), body = Some msg\<rparr>)
         \<and> on_data JSON_parse \<lparr>ffBuffer = [], executed = []\<rparr> (sendResponse JSON_stringify msg) =
           (Inr (), \<lparr>ffBuffer = [], executed = [Some msg]\<rparr>)"
proof -
  define f where "f = (decimal (length (JSON_stringify msg)), JSON_stringify msg)"
  have cf: "complete_frame f"
    by (simp add: f_def complete_frame_def decimal_nonempty decimal_digits number_of_decimal)
  have sr: "sendResponse JSON_stringify msg = frame_bytes f"
    by (simp add: sendResponse_def Let_def frame_bytes_def f_def)
  have "parseFirefoxPacket JSON_parse ([] @ frame_bytes f @ []) (length ([] :: byte list)) =
          Inr (Some \<lparr>lastPos = length (frame_bytes f), body = Some msg\<rparr>)"
    unfolding parse_complete [OF cf] using assms by (simp add: f_def)
  then have a: "parseFirefoxPacket JSON_parse (sendResponse JSON_stringify msg) 0 =
           Inr (Some \<lparr>lastPos = length (sendResponse JSON_stringify msg), body = Some msg\<rparr>)"
    by (simp add: sr)
  have pf: "parses JSON_parse f"
    by (simp add: parses_def f_def assms(1))
  have pr: "partial_frame []" by (simp add: partial_frame_def)
  have "on_data JSON_parse \<lparr>ffBuffer = [], executed = []\<rparr> (frame_bytes f) =
          (Inr (), \<lparr>ffBuffer = [], executed = []\<rparr>
             \<lparr>executed := executed \<lparr>ffBuffer = [], executed = []\<rparr> @ map (message_of JSON_parse) [f],
              ffBuffer := []\<rparr>)"
    by (rule on_data_frames [where fs = "[f]"]) (simp_all add: cf pf pr)
  then have b: "on_data JSON_parse \<lparr>ffBuffer = [], executed = []\<rparr> (sendResponse JSON_stringify msg) =
           (Inr (), \<lparr>ffBuffer = [], executed = [Some msg]\<rparr>)"
    using assms by (simp add: sr message_of_def f_def)
  from a b show ?thesis by blast
qed

theorem framing_round_trip_witness:
  "parseFirefoxPacket (\<lambda>bs. Inr bs :: error + byte list)
     (sendResponse (\<lambda>b. b) [0x7b, 0x7d]) 0 =
     Inr (Some \<lparr>lastPos = 4, body = Some [0x7b, 0x7d]\<rparr>)"
  using framing_round_trip [of "\<lambda>bs. Inr bs :: error + byte list" "\<lambda>b. b" "[0x7b, 0x7d]"]
  by (simp add: sendResponse_def decimal.simps)

section \<open>Properties of the request queue of an actor\<close>

lemma relayed_requests_append:
  "relayed_requests (xs @ ys) = relayed_requests xs @ relayed_requests ys"
  by (induction xs rule: relayed_requests.induct) simp_all

lemma fifo_inv_new: "fifo_inv (new_Actor nm c)"
  by (simp add: fifo_inv_def new_Actor_def pending_def)

lemma fifo_inv_sendRequest:
  assumes "fifo_inv a"
  shows "fifo_inv (snd (sendRequest b a))"
proof (cases "processing a")
  case None
  with assms have q: "queue a = []" by (simp add: fifo_inv_def Let_def)
  from assms None q show ?thesis
    by (auto simp: fifo_inv_def Let_def sendRequest_def pending_def relayed_requests_append
                   nth_append)
next
  case (Some r)
  from assms Some show ?thesis
    by (auto simp: fifo_inv_def Let_def sendRequest_def pending_def relayed_requests_append
                   nth_append Suc_diff_le)
qed


lemma fifo_inv_sendMessage: "fifo_inv a \<Longrightarrow> fifo_inv (sendMessage b a)"
  by (simp add: fifo_inv_def Let_def sendMessage_def pending_def relayed_requests_append)

lemma fifo_inv_settle_next:
  assumes "fifo_inv a" and "processing a = Some r" and "outcome \<noteq> Pending"
  shows "fifo_inv (sendNext (a\<lparr>capabilities := (capabilities a)
           [capability r := settle (capabilities a ! capability r) outcome]\<rparr>))"
proof -
  define n where "n = length (capabilities a)"
  define k where "k = n - Suc (length (queue a))"
  have p: "pending a = r # queue a" using assms(2) by (simp add: pending_def)
  from assms(1) have len: "Suc (length (queue a)) \<le> n"
    and caps: "map capability (r # queue a) = [k..<n]"
    and st: "\<forall>i<n. (capabilities a ! i \<noteq> Pending) = (i < k)"
    and rel: "map capability (relayed_requests (relayed a)) = [0..<n - length (queue a)]"
    by (simp_all add: fifo_inv_def Let_def p n_def k_def)
  have kn: "k < n" and k: "Suc k = n - length (queue a)"
    using len by (simp_all add: k_def)
  from caps have "[k..<n] = capability r # map capability (queue a)" by simp
  then have ck: "capability r = k" and cq: "map capability (queue a) = [Suc k..<n]"
    by (auto simp add: upt_eq_Cons_conv)
  from st kn have "capabilities a ! k = Pending" by auto
  then have upd: "(capabilities a)[capability r := settle (capabilities a ! capability r) outcome]
                  = (capabilities a)[k := outcome]"
    by (simp add: ck settle_def)
  have st': "\<forall>i<n. ((capabilities a)[k := outcome] ! i \<noteq> Pending) = (i < Suc k)"
    using st assms(3) kn unfolding n_def by (auto simp: nth_list_update less_Suc_eq)
  show ?thesis
  proof (cases "queue a")
    case Nil
    with k have "Suc k = n" by simp
    with st' Nil rel show ?thesis
      by (simp add: upd sendNext_def fifo_inv_def Let_def pending_def n_def)
  next
    case (Cons q qs)
    with cq have "[Suc k..<n] = capability q # map capability qs" by simp
    then have cqs: "capability q = Suc k" "map capability qs = [Suc (Suc k)..<n]"
      and skn: "Suc k < n"
      by (auto simp add: upt_eq_Cons_conv)
    from k Cons have kk: "Suc k = n - Suc (length qs)" by simp
    with skn have k2: "n - length qs = Suc (Suc k)" by arith
    have "map capability (q # qs) = [Suc k..<n]" using Cons cq by simp
    with st' rel Cons kk k2 skn show ?thesis
      by (simp add: upd sendNext_def fifo_inv_def Let_def pending_def n_def [symmetric]
                    relayed_requests_append cqs)
  qed
qed

lemma fifo_inv_processResponse: "fifo_inv a \<Longrightarrow> fifo_inv (snd (processResponse b a))"
  using fifo_inv_settle_next [of a _ "Fulfilled b"]
  by (auto simp: processResponse_def respond_def split: option.splits)

lemma fifo_inv_Actor_processError: "fifo_inv a \<Longrightarrow> fifo_inv (snd (Actor_processError b a))"
  using fifo_inv_settle_next [of a _ "Rejected b"]
  by (auto simp: Actor_processError_def fail_def split: option.splits)

lemma fifo_inv_fields [simp]:
  "fifo_inv (a\<lparr>tabState := t\<rparr>) = fifo_inv a"
  "fifo_inv (a\<lparr>program := pr\<rparr>) = fifo_inv a"
  "fifo_inv (a\<lparr>evaluateCapabilty := ec\<rparr>) = fifo_inv a"
  "fifo_inv (a\<lparr>notified := ns\<rparr>) = fifo_inv a"
  "fifo_inv (a\<lparr>printed := ps\<rparr>) = fifo_inv a"
  by (simp_all add: fifo_inv_def pending_def)

lemma fifo_inv_processError: "fifo_inv a \<Longrightarrow> fifo_inv (snd (processError b a))"
  by (auto simp: processError_def ContextActor_processError_def fifo_inv_Actor_processError
           split: actor_class.splits option.splits)

lemma fifo_inv_processNotification:
  "fifo_inv a \<Longrightarrow> processNotification cv b a = Inr (h, a') \<Longrightarrow> fifo_inv a'"
  by (auto simp: processNotification_def ConsoleActor_processNotification_def
                 TabActor_processNotification_def ContextActor_processNotification_def Let_def
           split: actor_class.splits if_splits sum.splits json.splits option.splits)

lemma fifo_inv_processCommand:
  assumes "fifo_inv a" and "processCommand cv b a = Inr (h, a')"
  shows "fifo_inv a'"
proof (cases "cls a = RootActor \<and> tabState a = INITIALIZATION")
  case True
  with assms(2) have "a' = init b a" by (simp add: processCommand_def)
  with assms(1) show ?thesis by (simp add: init_def fifo_inv_sendRequest)
next
  case False
  with assms(2) have c: "Actor_processCommand cv b a = Inr (h, a')"
    by (simp add: processCommand_def)
  show ?thesis
  proof (cases "truthy (get b ''type'')")
    case True
    with c assms(1) show ?thesis
      by (simp add: Actor_processCommand_def fifo_inv_processNotification)
  next
    case nt: False
    show ?thesis
    proof (cases "truthy (get b ''error'')")
      case True
      with c nt have "a' = snd (processError b a)"
        by (auto simp add: Actor_processCommand_def)
      with assms(1) show ?thesis by (simp add: fifo_inv_processError)
    next
      case False
      with c nt have "a' = snd (processResponse b a)"
        by (auto simp add: Actor_processCommand_def)
      with assms(1) show ?thesis by (simp add: fifo_inv_processResponse)
    qed
  qed
qed

lemma fifo_inv_step: "fifo_inv a \<Longrightarrow> fifo_inv (step cv a e)"
  by (cases e)
     (auto simp: step_def evaluate_def Let_def fifo_inv_sendRequest fifo_inv_sendMessage
           split: sum.splits dest: fifo_inv_processCommand)

lemma fifo_inv_run: "fifo_inv a \<Longrightarrow> fifo_inv (run cv a es)"
  unfolding run_def by (induction es arbitrary: a) (simp_all add: fifo_inv_step)


text \<open>
  C1. After any sequence of events on a new actor of any class (calls of \<open>sendRequest\<close>,
  \<open>sendMessage\<close> and \<open>evaluate\<close>, and incoming messages): a request is settled only when
  every request created before it is settled; a request whose body has been relayed to
  the transport has every earlier request settled; and the requests relayed, followed by
  those in the queue, are all the requests in the order of their creation.
\<close>

theorem actor_requests_fifo:
  "let a = run convertToLocal (new_Actor nm c) es;
       n = length (capabilities a)
   in (\<forall>i j. i \<le> j \<and> j < n \<and> capabilities a ! j \<noteq> Pending \<longrightarrow> capabilities a ! i \<noteq> Pending) \<and>
      (\<forall>r \<in> set (relayed_requests (relayed a)). \<forall>i < capability r. capabilities a ! i \<noteq> Pending) \<and>
      map capability (relayed_requests (relayed a) @ queue a) = [0..<n]"
proof -
  define a where "a = run convertToLocal (new_Actor nm c) es"
  define n where "n = length (capabilities a)"
  define k where "k = n - length (pending a)"
  define m where "m = n - length (queue a)"
  have "fifo_inv a" unfolding a_def by (rule fifo_inv_run [OF fifo_inv_new])
  then have len: "length (pending a) \<le> n"
    and pq: "processing a = None \<longrightarrow> queue a = []"
    and caps: "map capability (pending a) = [k..<n]"
    and st: "\<forall>i<n. (capabilities a ! i \<noteq> Pending) = (i < k)"
    and rel: "map capability (relayed_requests (relayed a)) = [0..<m]"
    by (simp_all add: fifo_inv_def Let_def n_def k_def m_def)
  have km: "k \<le> m" "m \<le> Suc k" "m \<le> n"
    using len by (auto simp: k_def m_def pending_def split: option.splits)
  have q: "map capability (queue a) = [m..<n]"
  proof (cases "processing a")
    case None
    with pq caps show ?thesis by (simp add: pending_def m_def k_def)
  next
    case (Some r)
    with caps have "[k..<n] = capability r # map capability (queue a)"
      by (simp add: pending_def)
    then have "map capability (queue a) = [Suc k..<n]"
      by (auto simp add: upt_eq_Cons_conv)
    moreover from Some len have "m = Suc k" by (simp add: k_def m_def pending_def)
    ultimately show ?thesis by simp
  qed
  have 1: "\<forall>i j. i \<le> j \<and> j < n \<and> capabilities a ! j \<noteq> Pending \<longrightarrow> capabilities a ! i \<noteq> Pending"
    using st by (metis le_less_trans)
  have 2: "\<forall>r \<in> set (relayed_requests (relayed a)). \<forall>i < capability r. capabilities a ! i \<noteq> Pending"
  proof (intro ballI allI impI)
    fix r i assume r: "r \<in> set (relayed_requests (relayed a))" and i: "i < capability r"
    from r have "capability r \<in> set (map capability (relayed_requests (relayed a)))" by simp
    then have "capability r < m" unfolding rel by simp
    with i km have "i < k" "i < n" by simp_all
    with st show "capabilities a ! i \<noteq> Pending" by simp
  qed
  have "[0..<m + (n - m)] = [0..<m] @ [m..<m + (n - m)]"
    by (rule upt_add_eq_append) simp
  with km(3) have "[0..<m] @ [m..<n] = [0..<n]" by simp
  with rel q have 3: "map capability (relayed_requests (relayed a) @ queue a) = [0..<n]"
    by simp
  show ?thesis
    unfolding Let_def a_def [symmetric] n_def [symmetric] using 1 2 3 by blast
qed


theorem actor_requests_fifo_witness:
  "let a = run LocalURLHelper_convertToLocal (new_Actor (JStr ''src1'') SourceActor)
             [SendRequest (JObj [(''type'', JStr ''setBreakpoint'')]),
              SendRequest (JObj [(''type'', JStr ''delete'')]),
              ProcessCommand (JObj [(''from'', JStr ''src1''), (''actor'', JStr ''bp1'')])]
   in map capability (relayed_requests (relayed a)) = [0, 1] \<and>
      capabilities a ! 1 = Pending \<and>
      capabilities a ! 0 \<noteq> Pending"
proof -
  define a where "a = run LocalURLHelper_convertToLocal (new_Actor (JStr ''src1'') SourceActor)
             [SendRequest (JObj [(''type'', JStr ''setBreakpoint'')]),
              SendRequest (JObj [(''type'', JStr ''delete'')]),
              ProcessCommand (JObj [(''from'', JStr ''src1''), (''actor'', JStr ''bp1'')])]"
  have rel: "map capability (relayed_requests (relayed a)) = [0, 1]"
    and p: "capabilities a ! 1 = Pending"
    unfolding a_def by code_simp+
  have "\<forall>r \<in> set (relayed_requests (relayed a)). \<forall>i < capability r. capabilities a ! i \<noteq> Pending"
    using actor_requests_fifo [of LocalURLHelper_convertToLocal "JStr ''src1''" SourceActor
        "[SendRequest (JObj [(''type'', JStr ''setBreakpoint'')]),
          SendRequest (JObj [(''type'', JStr ''delete'')]),
          ProcessCommand (JObj [(''from'', JStr ''src1''), (''actor'', JStr ''bp1'')])]"]
    unfolding Let_def a_def [symmetric] by blast
  moreover from rel have "1 \<in> capability ` set (relayed_requests (relayed a))"
    by (metis list.set_intros(1,2) list.set_map)
  ultimately have "capabilities a ! 0 \<noteq> Pending" by auto
  with rel p show ?thesis unfolding Let_def a_def [symmetric] by simp
qed

section \<open>Properties of the context actor\<close>

lemma formatReturnValue_truthy_throw:
  assumes "value \<noteq> JUndefined" and "value \<noteq> JNull"
    and "\<not> truthy (get value ''terminated'')" and "truthy (get value ''throw'')"
  shows "formatReturnValue value =
           Inr \<lparr>display = JStr (''(error: '' @ ToString (formatGrip (get value ''throw'')) @ '')''),
                id' = getActor (get value ''throw'')\<rparr>"
  using assms by (simp add: formatReturnValue_def read_prop_def)

lemma formatReturnValue_terminated:
  assumes "value \<noteq> JUndefined" and "value \<noteq> JNull" and "truthy (get value ''terminated'')"
  shows "formatReturnValue value = Inr \<lparr>display = JStr ''(terminated)'', id' = JUndefined\<rparr>"
  using assms by (simp add: formatReturnValue_def read_prop_def)

lemma formatReturnValue_remote_object_thrown:
  "formatReturnValue
     (JObj [(''throw'', JObj [(''type'', JStr ''object''), (''class'', JStr ''Error''),
                              (''actor'', JStr ''obj12'')])]) =
   Inr \<lparr>display = JStr ''(error: [object Error])'', id' = JStr ''obj12''\<rparr>"
  by (simp add: formatReturnValue_def read_prop_def formatGrip_def getActor_def)

text \<open>
  C8. The claim says that a thrown value yields the display "(error: <formatted grip>)".
  \<open>formatReturnValue\<close> tests \<open>if (value.throw)\<close>, the truth value of the thrown grip and
  not its presence, so the payloads of \<open>throw 0\<close>, \<open>throw ""\<close> and \<open>throw false\<close>, whose
  grips are the primitives themselves, are taken for a normal return: the display is
  the formatted \<open>value.return\<close>, which is \<open>undefined\<close>, and there is no id.
\<close>

theorem formatReturnValue_falsy_throw:
  "formatReturnValue (JObj [(''throw'', JNum 0)]) = Inr \<lparr>display = JUndefined, id' = JUndefined\<rparr>
   \<and> formatReturnValue (JObj [(''throw'', JStr [])]) = Inr \<lparr>display = JUndefined, id' = JUndefined\<rparr>
   \<and> formatReturnValue (JObj [(''throw'', JBool False)]) = Inr \<lparr>display = JUndefined, id' = JUndefined\<rparr>"
  by (simp add: formatReturnValue_def read_prop_def formatGrip_def getActor_def stringify_def)

lemma newSource_without_url_ignored:
  assumes "get b ''type'' = JStr ''newSource''"
    and "get b ''source'' \<noteq> JUndefined" and "get b ''source'' \<noteq> JNull"
    and "\<not> truthy (get (get b ''source'') ''url'')"
  shows "ContextActor_processNotification convertToLocal b a = Inr (True, a)"
  using assms by (simp add: ContextActor_processNotification_def read_prop_def)

lemma LocalURLHelper_path_truthy:
  assumes "s \<noteq> []"
  shows "\<exists>p. LocalURLHelper_convertToLocal (JStr s) = Inr (JStr p) \<and> p \<noteq> []"
proof (cases "take (length ''file:///'') s = ''file:///''")
  case True
  then have "s = ''file:///'' @ drop (length ''file:///'') s"
    by (metis append_take_drop_id)
  then obtain t where "s = ''file:///'' @ t" ..
  then have "drop (length ''file://'') s \<noteq> []" by simp
  with True show ?thesis by (simp add: LocalURLHelper_convertToLocal_def)
next
  case False
  with assms show ?thesis by (simp add: LocalURLHelper_convertToLocal_def)
qed

text \<open>
  C9. The claim says that a source whose URL does not resolve to a local path under the
  project root is ignored. The handler does test \<open>if (!path)\<close> ("ignoring non-project
  scripts"), but neither resolver ever returns an empty path. For the URL
  \<open>http://other.example/lib.js\<close>: the local-file resolver returns the URL itself, and
  the HTTP resolver (here with \<open>url.parse(url).pathname = '/lib.js'\<close> and
  \<open>path.join('/proj', 'lib.js') = '/proj/lib.js'\<close>) joins the path of any host's URL to
  the web root; in both cases the source is published to the session.
\<close>

theorem newSource_outside_project_published:
  "ContextActor_processNotification LocalURLHelper_convertToLocal
     (JObj [(''from'', JStr ''context1''), (''type'', JStr ''newSource''),
            (''source'', JObj [(''url'', JStr ''http://other.example/lib.js''),
                               (''actor'', JStr ''source9'')])])
     (new_ContextActor (JStr ''context1''))
   = Inr (True, (new_ContextActor (JStr ''context1''))
           \<lparr>notified := [(''source'', JObj [(''path'', JStr ''http://other.example/lib.js''),
                                             (''url'', JStr ''http://other.example/lib.js''),
                                             (''id'', JStr ''source9'')])]\<rparr>)
   \<and>
   ContextActor_processNotification
     (HttpURLHelper_convertToLocal (\<lambda>u. Some ''/lib.js'') (\<lambda>a b. a @ ''/'' @ b) ''/proj'')
     (JObj [(''from'', JStr ''context1''), (''type'', JStr ''newSource''),
            (''source'', JObj [(''url'', JStr ''http://other.example/lib.js''),
                               (''actor'', JStr ''source9'')])])
     (new_ContextActor (JStr ''context1''))
   = Inr (True, (new_ContextActor (JStr ''context1''))
           \<lparr>notified := [(''source'', JObj [(''path'', JStr ''/proj/lib.js''),
                                             (''url'', JStr ''http://other.example/lib.js''),
                                             (''id'', JStr ''source9'')])]\<rparr>)"
  by code_simp

section \<open>Properties of the debug session\<close>

lemma disconnect_throws_on_pending_source:
  assumes "pendingSourceCapabilities s \<noteq> []"
  shows "disconnectRequest s =
           (Inl TypeError,
            s\<lparr>pausedCapability := settle (pausedCapability s) (Rejected (JStr ''stopping''))\<rparr>)"
  using assms
  by (cases "pendingSourceCapabilities s") (auto simp: disconnectRequest_def Let_def)

text \<open>
  C10, as stated, fails: a session whose target is running (the resume gate is unresolved),
  with no pending source resolution and with an evaluate in flight on the context actor.
  \<open>disconnectRequest\<close> completes, and the evaluate capability and the promise of the
  \<open>frames\<close> request are still pending after it: nothing in it reaches the context actor.
\<close>

theorem disconnect_leaves_evaluate_pending:
  "disconnectRequest
     \<lparr>pausedCapability = Pending, pendingSourceCapabilities = [],
      session_process = Some True,
      session_context = Some (run LocalURLHelper_convertToLocal (new_ContextActor (JStr ''context1''))
        [ProcessCommand (JObj [(''from'', JStr ''context1''), (''sources'', JArr [])]),
         Evaluate (JStr ''1+1'') JUndefined]),
      session_dropped = False, front_end = []\<rparr>
   = (Inr (),
      \<lparr>pausedCapability = Rejected (JStr ''stopping''), pendingSourceCapabilities = [],
       session_process = Some False,
       session_context = Some (run LocalURLHelper_convertToLocal (new_ContextActor (JStr ''context1''))
         [ProcessCommand (JObj [(''from'', JStr ''context1''), (''sources'', JArr [])]),
          Evaluate (JStr ''1+1'') JUndefined]),
       session_dropped = True, front_end = [OutputEvent ''stopping'', Response, Shutdown]\<rparr>)
   \<and> evaluateCapabilty (run LocalURLHelper_convertToLocal (new_ContextActor (JStr ''context1''))
        [ProcessCommand (JObj [(''from'', JStr ''context1''), (''sources'', JArr [])]),
         Evaluate (JStr ''1+1'') JUndefined]) = Some Pending
   \<and> capabilities (run LocalURLHelper_convertToLocal (new_ContextActor (JStr ''context1''))
        [ProcessCommand (JObj [(''from'', JStr ''context1''), (''sources'', JArr [])]),
         Evaluate (JStr ''1+1'') JUndefined]) ! 1 = Pending"
  by code_simp

text \<open>
  C10, amended. After \<open>disconnectRequest\<close>, whether it completes or throws, the resume gate
  is settled: if it was unresolved it is rejected with \<open>'stopping'\<close>. The context actor,
  with its evaluate capability and the promises of its requests, is left as it was.
\<close>

theorem disconnect_rejects_resume_gate:
  "pausedCapability (snd (disconnectRequest s)) =
     (if pausedCapability s = Pending then Rejected (JStr ''stopping'') else pausedCapability s)
   \<and> session_context (snd (disconnectRequest s)) = session_context s"
  by (simp add: disconnectRequest_def Let_def settle_def split: sum.splits)

theorem disconnect_rejects_resume_gate_witness:
  "pausedCapability (snd (disconnectRequest
     \<lparr>pausedCapability = Pending, pendingSourceCapabilities = [(''/proj/a.js'', Pending)],
      session_process = Some True, session_context = None,
      session_dropped = False, front_end = []\<rparr>)) = Rejected (JStr ''stopping'')"
  using disconnect_rejects_resume_gate
    [of "\<lparr>pausedCapability = Pending, pendingSourceCapabilities = [(''/proj/a.js'', Pending)],
          session_process = Some True, session_context = None,
          session_dropped = False, front_end = []\<rparr>"]
  by simp

section \<open>Properties of one-shot actors and breakpoints\<close>

lemma sendNext_fields [simp]:
  "cls (sendNext a) = cls a" "name (sendNext a) = name a"
  "capabilities (sendNext a) = capabilities a"
  by (simp_all add: sendNext_def split: list.splits)

lemma sendRequest_fields [simp]:
  "cls (snd (sendRequest b a)) = cls a" "name (snd (sendRequest b a)) = name a"
  "capabilities (snd (sendRequest b a)) = capabilities a @ [Pending]"
  "fst (sendRequest b a) = length (capabilities a)"
  by (simp_all add: sendRequest_def Let_def split: option.splits)

lemma processResponse_fields:
  "cls (snd (processResponse b a)) = cls a" "name (snd (processResponse b a)) = name a"
  "length (capabilities (snd (processResponse b a))) = length (capabilities a)"
  by (simp_all add: processResponse_def respond_def split: option.splits)

lemma processError_fields:
  "cls (snd (processError b a)) = cls a" "name (snd (processError b a)) = name a"
  "length (capabilities (snd (processError b a))) = length (capabilities a)"
  by (simp_all add: processError_def ContextActor_processError_def Actor_processError_def fail_def
        split: option.splits actor_class.splits)

lemma processNotification_fields:
  assumes "processNotification cv b a = Inr (h, a')"
  shows "cls a' = cls a" "name a' = name a" "capabilities a' = capabilities a"
    "relayed a' = relayed a" "processing a' = processing a" "queue a' = queue a"
  using assms
  by (auto simp: processNotification_def ConsoleActor_processNotification_def
                 TabActor_processNotification_def ContextActor_processNotification_def Let_def
           split: actor_class.splits if_splits sum.splits json.splits option.splits)

lemma processCommand_fields:
  assumes "processCommand cv b a = Inr (h, a')"
  shows "cls a' = cls a" and "name a' = name a"
    and "cls a \<noteq> RootActor \<Longrightarrow> length (capabilities a') = length (capabilities a)"
proof -
  have "cls a' = cls a \<and> name a' = name a \<and>
        (cls a \<noteq> RootActor \<longrightarrow> length (capabilities a') = length (capabilities a))"
  proof (cases "cls a = RootActor \<and> tabState a = INITIALIZATION")
    case True
    with assms have "a' = init b a" by (simp add: processCommand_def)
    with True show ?thesis by (simp add: init_def)
  next
    case False
    with assms have c: "Actor_processCommand cv b a = Inr (h, a')"
      by (simp add: processCommand_def)
    show ?thesis
    proof (cases "truthy (get b ''type'')")
      case True
      with c have "processNotification cv b a = Inr (h, a')"
        by (simp add: Actor_processCommand_def)
      then show ?thesis by (simp add: processNotification_fields)
    next
      case nt: False
      show ?thesis
      proof (cases "truthy (get b ''error'')")
        case True
        with c nt have "a' = snd (processError b a)"
          by (auto simp add: Actor_processCommand_def)
        then show ?thesis by (simp add: processError_fields)
      next
        case False
        with c nt have "a' = snd (processResponse b a)"
          by (auto simp add: Actor_processCommand_def)
        then show ?thesis by (simp add: processResponse_fields)
      qed
    qed
  qed
  then show "cls a' = cls a" and "name a' = name a"
    and "cls a \<noteq> RootActor \<Longrightarrow> length (capabilities a') = length (capabilities a)"
    by simp_all
qed

lemma plain_processCommand:
  assumes "plain (cls a)" and "\<not> truthy (get r ''type'')" and "processing a = Some q"
  shows "processCommand cv r a =
           Inr (True, sendNext (a\<lparr>capabilities := (capabilities a)
                  [capability q := settle (capabilities a ! capability q) (reply_outcome r)]\<rparr>))"
  using assms
  by (auto simp: plain_def processCommand_def Actor_processCommand_def processError_def
        Actor_processError_def processResponse_def respond_def fail_def reply_outcome_def)

lemma plain_reactions:
  assumes "plain (cls a)"
  shows "reactions b this a p = p"
  using assms by (auto simp: plain_def reactions_def)

lemma onExecuteCommand_plain:
  assumes "truthy (get r ''from'')" and "actor_map p (ToString (get r ''from'')) = Some this"
    and "plain (cls (heap p ! this))" and "\<not> truthy (get r ''type'')"
    and "processing (heap p ! this) = Some q"
  shows "onExecuteCommand cv r p =
           Inr (update_actor this
                  (sendNext ((heap p ! this)\<lparr>capabilities := (capabilities (heap p ! this))
                     [capability q := settle (capabilities (heap p ! this) ! capability q)
                                        (reply_outcome r)]\<rparr>)) p)"
proof -
  from assms(1) have "truthy r" by (cases r) simp_all
  with assms show ?thesis
    by (simp add: onExecuteCommand_def plain_processCommand plain_reactions)
qed

lemma await_step:
  assumes "\<not> settled p" and "truthy (get r ''from'')"
    and "actor_map p (ToString (get r ''from'')) = Some this"
    and "plain (cls (heap p ! this))" and "\<not> truthy (get r ''type'')"
    and "processing (heap p ! this) = Some q"
  shows "await cv settled (r # ms) p =
           await cv settled ms
             (update_actor this (replied r (heap p ! this)) (p\<lparr>trace := trace p @ [Received r]\<rparr>))"
proof -
  let ?p = "p\<lparr>trace := trace p @ [Received r]\<rparr>"
  have "onExecuteCommand cv r ?p = Inr (update_actor this (replied r (heap ?p ! this)) ?p)"
    using assms(2-6) by (subst onExecuteCommand_plain [where this = this and q = q])
                        (simp_all add: replied_def)
  with assms(1) show ?thesis by simp
qed

lemma replied_serving:
  assumes "processing a = Some q" and "queue a = qs"
    and "capabilities a = ds @ replicate (Suc (length qs)) Pending"
    and "capability q = length ds"
  shows "replied r a =
           (case qs of
              [] \<Rightarrow> a\<lparr>capabilities := ds @ [reply_outcome r], processing := None\<rparr>
            | q' # qs' \<Rightarrow> a\<lparr>capabilities := (ds @ [reply_outcome r]) @ replicate (Suc (length qs')) Pending,
                             processing := Some q', queue := qs',
                             relayed := relayed a @ [Request q']\<rparr>)"
  using assms
  by (cases qs) (simp_all add: replied_def sendNext_def settle_def list_update_append nth_append)

lemma reply_outcome_settled [simp]: "reply_outcome r \<noteq> Pending" "Pending \<noteq> reply_outcome r"
  by (simp_all add: reply_outcome_def)

lemma replied_last:
  assumes "serving a ds q []"
  shows "replied r a = a\<lparr>capabilities := ds @ [reply_outcome r], processing := None\<rparr>"
  using assms replied_serving [of a q "[]" ds r] by (simp add: serving_def)

lemma replied_next:
  assumes "serving a ds q (q' # qs')"
  shows "replied r a =
           a\<lparr>capabilities := (ds @ [reply_outcome r]) @ replicate (Suc (length qs')) Pending,
             processing := Some q', queue := qs', relayed := relayed a @ [Request q']\<rparr>"
    and "serving (replied r a) (ds @ [reply_outcome r]) q' qs'"
proof -
  show eq: "replied r a =
           a\<lparr>capabilities := (ds @ [reply_outcome r]) @ replicate (Suc (length qs')) Pending,
             processing := Some q', queue := qs', relayed := relayed a @ [Request q']\<rparr>"
    using assms replied_serving [of a q "q' # qs'" ds r] by (simp add: serving_def)
  from assms show "serving (replied r a) (ds @ [reply_outcome r]) q' qs'"
    unfolding eq by (simp add: serving_def)
qed

lemma await_replies:
  assumes settled: "\<And>p. length (capabilities (heap p ! this)) = n \<Longrightarrow>
                      settled p = (Pending \<notin> set (capabilities (heap p ! this)))"
    and "this < length (heap p)"
    and "actor_map p (ToString src) = Some this" and "truthy src"
    and "serving (heap p ! this) ds q qs"
    and "n = length ds + Suc (length qs)"
    and "length rs = length qs"
    and "\<forall>x \<in> set (r # rs). get x ''from'' = src \<and> \<not> truthy (get x ''type'')"
  shows "\<exists>a'. await cv settled (r # rs @ ms) p =
                 (None, ms, p\<lparr>heap := (heap p)[this := a'],
                              trace := trace p @ Received r # exchange (map request_body qs) rs\<rparr>) \<and>
              capabilities a' = ds @ map reply_outcome (r # rs) \<and>
              name a' = name (heap p ! this) \<and> cls a' = cls (heap p ! this)"
  using assms(2-)
proof (induction qs arbitrary: p ds q r rs)
  case Nil
  let ?a = "heap p ! this"
  let ?p1 = "update_actor this (replied r ?a) (p\<lparr>trace := trace p @ [Received r]\<rparr>)"
  from Nil have rs: "rs = []" by simp
  have caps: "capabilities ?a = ds @ [Pending]" using Nil.prems(4) by (simp add: serving_def)
  have "\<not> settled p"
    using settled [of p] Nil.prems(5) by (simp add: caps)
  moreover have "truthy (get r ''from'')" "actor_map p (ToString (get r ''from'')) = Some this"
    using Nil.prems by simp_all
  moreover have "plain (cls ?a)"
    using Nil.prems(4) by (simp_all add: serving_def)
  moreover have "\<not> truthy (get r ''type'')"
    using Nil.prems by simp_all
  moreover have "processing ?a = Some q"
    using Nil.prems(4) by (simp_all add: serving_def)
  ultimately have step: "await cv settled (r # ms) p = await cv settled ms ?p1"
    by (rule await_step)
  have a1: "replied r ?a = ?a\<lparr>capabilities := ds @ [reply_outcome r], processing := None\<rparr>"
    using Nil.prems(4) by (rule replied_last)
  have p1: "?p1 = p\<lparr>heap := (heap p)[this := replied r ?a], trace := trace p @ [Received r]\<rparr>"
    by (simp add: update_actor_def a1)
  have h1: "heap ?p1 ! this = replied r ?a"
    using Nil.prems(1) by (simp add: p1)
  have "Pending \<notin> set ds" using Nil.prems(4) by (simp add: serving_def)
  then have "settled ?p1"
    using settled [of ?p1] Nil.prems(5) unfolding h1 by (simp add: a1)
  then have "await cv settled ms ?p1 = (None, ms, ?p1)"
    by (cases ms) simp_all
  with step p1 a1 show ?case
    by (intro exI [of _ "replied r ?a"]) (simp add: rs)
next
  case (Cons q' qs')
  let ?a = "heap p ! this"
  let ?p1 = "update_actor this (replied r ?a) (p\<lparr>trace := trace p @ [Received r]\<rparr>)"
  from Cons.prems(6) obtain r' rs' where rs: "rs = r' # rs'" and len: "length rs' = length qs'"
    by (cases rs) auto
  have caps: "capabilities ?a = ds @ replicate (Suc (Suc (length qs'))) Pending"
    using Cons.prems(4) by (simp add: serving_def)
  have "\<not> settled p"
    using settled [of p] Cons.prems(5) by (simp add: caps)
  moreover have "truthy (get r ''from'')" "actor_map p (ToString (get r ''from'')) = Some this"
    using Cons.prems by simp_all
  moreover have "plain (cls ?a)"
    using Cons.prems(4) by (simp_all add: serving_def)
  moreover have "\<not> truthy (get r ''type'')"
    using Cons.prems by simp_all
  moreover have "processing ?a = Some q"
    using Cons.prems(4) by (simp_all add: serving_def)
  ultimately have step: "await cv settled (r # rs @ ms) p = await cv settled (rs @ ms) ?p1"
    by (rule await_step)
  note a1 = replied_next [OF Cons.prems(4), of r]
  have p1: "?p1 = p\<lparr>heap := (heap p)[this := replied r ?a],
                      trace := trace p @ [Received r, Sent (request_body q')]\<rparr>"
    by (simp add: update_actor_def a1(1))
  have h1: "heap ?p1 ! this = replied r ?a"
    using Cons.prems(1) by (simp add: p1)
  have "\<exists>a'. await cv settled (r' # rs' @ ms) ?p1 =
                 (None, ms, ?p1\<lparr>heap := (heap ?p1)[this := a'],
                              trace := trace ?p1 @ Received r' # exchange (map request_body qs') rs'\<rparr>) \<and>
              capabilities a' = (ds @ [reply_outcome r]) @ map reply_outcome (r' # rs') \<and>
              name a' = name (heap ?p1 ! this) \<and> cls a' = cls (heap ?p1 ! this)"
  proof (rule Cons.IH)
    show "this < length (heap ?p1)" using Cons.prems(1) by (simp add: p1)
    show "actor_map ?p1 (ToString src) = Some this" using Cons.prems(2) by (simp add: p1)
    show "truthy src" by (rule Cons.prems(3))
    show "serving (heap ?p1 ! this) (ds @ [reply_outcome r]) q' qs'"
      unfolding h1 by (rule a1(2))
    show "n = length (ds @ [reply_outcome r]) + Suc (length qs')"
      using Cons.prems(5) by simp
    show "length rs' = length qs'" by (rule len)
    show "\<forall>x\<in>set (r' # rs'). get x ''from'' = src \<and> \<not> truthy (get x ''type'')"
      using Cons.prems(7) rs by simp
  qed
  then obtain a' where
    aw: "await cv settled (r' # rs' @ ms) ?p1 =
           (None, ms, ?p1\<lparr>heap := (heap ?p1)[this := a'],
                          trace := trace ?p1 @ Received r' # exchange (map request_body qs') rs'\<rparr>)"
    and c: "capabilities a' = (ds @ [reply_outcome r]) @ map reply_outcome (r' # rs')"
    and nm: "name a' = name (heap ?p1 ! this)" "cls a' = cls (heap ?p1 ! this)"
    by blast
  have fin: "?p1\<lparr>heap := (heap ?p1)[this := a'],
                  trace := trace ?p1 @ Received r' # exchange (map request_body qs') rs'\<rparr> =
             p\<lparr>heap := (heap p)[this := a'],
               trace := trace p @ Received r # exchange (map request_body (q' # qs')) rs\<rparr>"
    by (simp add: p1 rs)
  from nm have nm': "name a' = name ?a" "cls a' = cls ?a"
    unfolding h1 by (simp_all add: a1(1))
  show ?case
    using step aw c nm' unfolding fin by (intro exI [of _ a']) (simp add: rs)
qed

lemma length_queued [simp]: "length (queued nm k ls) = length ls"
  by (induction ls arbitrary: k) simp_all

lemma consecutive_queued: "consecutive k (queued nm k ls)"
  by (induction ls arbitrary: k) simp_all

lemma bodies_queued:
  "map request_body (queued nm k ls) = map (\<lambda>l. stamp_to nm (setBreakpoint_body l)) ls"
  by (induction ls arbitrary: k) simp_all

lemma send_all_queued:
  assumes "this < length (heap p)" and "processing (heap p ! this) = Some q0"
  shows "send_all this ls p =
           p\<lparr>heap := (heap p)[this := (heap p ! this)
                \<lparr>queue := queue (heap p ! this) @
                     queued (name (heap p ! this)) (length (capabilities (heap p ! this))) ls,
                 capabilities := capabilities (heap p ! this) @ replicate (length ls) Pending\<rparr>]\<rparr>"
  using assms
proof (induction ls arbitrary: p)
  case Nil
  then show ?case by simp
next
  case (Cons l ls)
  define a where "a = heap p ! this"
  define a1 where "a1 = snd (sendRequest (setBreakpoint_body l) a)"
  define p1 where "p1 = update_actor this a1 p"
  have a1: "a1 = a\<lparr>capabilities := capabilities a @ [Pending],
                     queue := queue a @ [\<lparr>request_body = stamp_to (name a) (setBreakpoint_body l),
                                          capability = length (capabilities a)\<rparr>]\<rparr>"
    using Cons.prems(2) by (simp add: a1_def a_def sendRequest_def Let_def)
  have p1: "p1 = p\<lparr>heap := (heap p)[this := a1]\<rparr>"
    by (simp add: p1_def update_actor_def a1 a_def)
  have h1: "heap p1 ! this = a1" using Cons.prems(1) by (simp add: p1)
  have step: "send_all this (l # ls) p = send_all this ls p1"
    by (simp add: p1_def a1_def a_def)
  have ih: "send_all this ls p1 =
          p1\<lparr>heap := (heap p1)[this := (heap p1 ! this)
                \<lparr>queue := queue (heap p1 ! this) @
                     queued (name (heap p1 ! this)) (length (capabilities (heap p1 ! this))) ls,
                 capabilities := capabilities (heap p1 ! this) @ replicate (length ls) Pending\<rparr>]\<rparr>"
  proof (rule Cons.IH)
    show "this < length (heap p1)" using Cons.prems(1) by (simp add: p1)
    show "processing (heap p1 ! this) = Some q0"
      unfolding h1 using Cons.prems(2) by (simp add: a1 a_def)
  qed
  have fin: "p1\<lparr>heap := (heap p1)[this := a1
                \<lparr>queue := queue a1 @ queued (name a1) (length (capabilities a1)) ls,
                 capabilities := capabilities a1 @ replicate (length ls) Pending\<rparr>]\<rparr> =
             p\<lparr>heap := (heap p)[this := a
                \<lparr>queue := queue a @ queued (name a) (length (capabilities a)) (l # ls),
                 capabilities := capabilities a @ replicate (length (l # ls)) Pending\<rparr>]\<rparr>"
    by (simp add: p1 a1 replicate_app_Cons_same)
  show ?case
    unfolding step ih h1 fin a_def ..
qed

lemma fulfilled_values_settled:
  assumes "length ls = length cs"
  shows "(fulfilled_values (map (\<lambda>(l, c). then_value c (f l) (g l)) (zip ls cs)) \<noteq> None) =
           (Pending \<notin> set cs)"
  using assms
proof (induction ls cs rule: list_induct2)
  case Nil
  then show ?case by simp
next
  case (Cons l ls c cs)
  then show ?case by (cases c) (auto simp: then_value_def)
qed

lemma fulfilled_values_items:
  assumes "length ls = length rs"
  shows "fulfilled_values
           (map (\<lambda>(l, c). then_value c (addBreakpoint_fulfilled l) (addBreakpoint_rejected l))
              (zip ls (map reply_outcome rs))) = Some (map (\<lambda>(l, r). item l r) (zip ls rs))"
  using assms
  by (induction ls rs rule: list_induct2) (simp_all add: then_value_def reply_outcome_def item_def)

lemma addBreakpoints_action_replies:
  assumes "this < length (heap p)" and "heap p ! this = new_Actor src SourceActor"
    and "actor_map p (ToString src) = Some this" and "truthy src"
    and "length rs = length lines"
    and "\<forall>x \<in> set rs. get x ''from'' = src \<and> \<not> truthy (get x ''type'')"
  shows "\<exists>a'. addBreakpoints_action cv this lines (rs @ ms) p =
                 (Done (map (\<lambda>(l, r). item l r) (zip lines rs)), ms,
                  p\<lparr>heap := (heap p)[this := a'],
                    trace := trace p @
                      exchange (map (\<lambda>l. stamp_to src (setBreakpoint_body l)) lines) rs\<rparr>) \<and>
              name a' = src"
proof (cases lines)
  case Nil
  with assms(5) have rs: "rs = []" by simp
  have "await cv (\<lambda>p. fulfilled_values (entries this 0 [] p) \<noteq> None) ms p = (None, ms, p)"
    by (cases ms) (simp_all add: entries_def)
  then have "addBreakpoints_action cv this lines (rs @ ms) p = (Done [], ms, p)"
    using assms(2) by (simp add: addBreakpoints_action_def Nil rs new_Actor_def entries_def)
  moreover have "p\<lparr>heap := (heap p)[this := heap p ! this], trace := trace p @ []\<rparr> = p"
    by simp
  ultimately show ?thesis
    using assms(2) by (intro exI [of _ "heap p ! this"]) (simp add: Nil rs new_Actor_def)
next
  case (Cons l ls)
  with assms(5) obtain r rs' where rs: "rs = r # rs'" and len: "length rs' = length ls"
    by (cases rs) auto
  define q0 where "q0 = \<lparr>request_body = stamp_to src (setBreakpoint_body l), capability = 0\<rparr>"
  define a1 where "a1 = (new_Actor src SourceActor)
                     \<lparr>capabilities := [Pending], processing := Some q0, relayed := [Request q0]\<rparr>"
  define p1 where "p1 = p\<lparr>heap := (heap p)[this := a1],
                          trace := trace p @ [Sent (stamp_to src (setBreakpoint_body l))]\<rparr>"
  define a2 where "a2 = a1\<lparr>queue := queued src 1 ls,
                           capabilities := Pending # replicate (length ls) Pending\<rparr>"
  define p2 where "p2 = p1\<lparr>heap := (heap p1)[this := a2]\<rparr>"
  define settled where
    "settled = (\<lambda>p. fulfilled_values (entries this 0 lines p) \<noteq> None)"
  have s1: "snd (sendRequest (setBreakpoint_body l) (heap p ! this)) = a1"
    by (simp add: assms(2) sendRequest_def Let_def new_Actor_def a1_def q0_def)
  have u1: "update_actor this a1 p = p1"
    by (simp add: update_actor_def p1_def assms(2) new_Actor_def a1_def q0_def)
  have h1: "heap p1 ! this = a1" using assms(1) by (simp add: p1_def)
  have sa: "send_all this lines p = p2"
  proof -
    have "send_all this lines p = send_all this ls p1"
      by (simp add: Cons s1 u1)
    also have "\<dots> = p1\<lparr>heap := (heap p1)[this := (heap p1 ! this)
                \<lparr>queue := queue (heap p1 ! this) @
                     queued (name (heap p1 ! this)) (length (capabilities (heap p1 ! this))) ls,
                 capabilities := capabilities (heap p1 ! this) @ replicate (length ls) Pending\<rparr>]\<rparr>"
    proof (rule send_all_queued)
      show "this < length (heap p1)" using assms(1) by (simp add: p1_def)
      show "processing (heap p1 ! this) = Some q0" unfolding h1 by (simp add: a1_def)
    qed
    also have "\<dots> = p2"
      unfolding h1 by (simp add: p2_def a2_def a1_def new_Actor_def)
    finally show ?thesis .
  qed
  have h2: "heap p2 ! this = a2" using assms(1) by (simp add: p2_def p1_def)
  have k: "length (capabilities (heap p ! this)) = 0"
    by (simp add: assms(2) new_Actor_def)
  have "\<exists>a'. await cv settled (r # rs' @ ms) p2 =
                 (None, ms, p2\<lparr>heap := (heap p2)[this := a'],
                              trace := trace p2 @ Received r #
                                exchange (map request_body (queued src 1 ls)) rs'\<rparr>) \<and>
              capabilities a' = [] @ map reply_outcome (r # rs') \<and>
              name a' = name (heap p2 ! this) \<and> cls a' = cls (heap p2 ! this)"
  proof (rule await_replies [where n = "length lines" and src = src and q = q0])
    fix p' :: protocol
    assume "length (capabilities (heap p' ! this)) = length lines"
    then show "settled p' = (Pending \<notin> set (capabilities (heap p' ! this)))"
      unfolding settled_def entries_def
      using fulfilled_values_settled [of lines "capabilities (heap p' ! this)"] by simp
  next
    show "this < length (heap p2)" using assms(1) by (simp add: p2_def p1_def)
    show "actor_map p2 (ToString src) = Some this" using assms(3) by (simp add: p2_def p1_def)
    show "truthy src" by (rule assms(4))
    show "serving (heap p2 ! this) [] q0 (queued src 1 ls)"
      unfolding h2
      using consecutive_queued [of 1 src ls]
      by (simp add: serving_def a2_def a1_def new_Actor_def plain_def q0_def)
    show "length lines = length [] + Suc (length (queued src 1 ls))" by (simp add: Cons)
    show "length rs' = length (queued src 1 ls)" by (simp add: len)
    show "\<forall>x\<in>set (r # rs'). get x ''from'' = src \<and> \<not> truthy (get x ''type'')"
      using assms(6) rs by simp
  qed
  then obtain a' where
    aw: "await cv settled (r # rs' @ ms) p2 =
           (None, ms, p2\<lparr>heap := (heap p2)[this := a'],
                        trace := trace p2 @ Received r #
                          exchange (map request_body (queued src 1 ls)) rs'\<rparr>)"
    and c: "capabilities a' = map reply_outcome rs"
    and nm: "name a' = name (heap p2 ! this)"
    by (auto simp: rs)
  define p3 where "p3 = p\<lparr>heap := (heap p)[this := a'],
                    trace := trace p @
                      exchange (map (\<lambda>l. stamp_to src (setBreakpoint_body l)) lines) rs\<rparr>"
  have fin: "p2\<lparr>heap := (heap p2)[this := a'],
                trace := trace p2 @ Received r #
                  exchange (map request_body (queued src 1 ls)) rs'\<rparr> = p3"
    by (simp add: p3_def p2_def p1_def Cons rs bodies_queued)
  have h3: "heap p3 ! this = a'" using assms(1) by (simp add: p3_def)
  have items: "fulfilled_values (entries this 0 lines p3) =
                 Some (map (\<lambda>(l, r). item l r) (zip lines rs))"
    unfolding entries_def h3 c
    using fulfilled_values_items [of lines rs] assms(5) by simp
  have aw3: "await cv (\<lambda>p. fulfilled_values (entries this 0 lines p) \<noteq> None) (rs @ ms) p2 =
               (None, ms, p3)"
    using aw [unfolded fin settled_def] by (simp only: rs append_Cons)
  have "addBreakpoints_action cv this lines (rs @ ms) p =
          (Done (map (\<lambda>(l, r). item l r) (zip lines rs)), ms, p3)"
    unfolding addBreakpoints_action_def Let_def k sa aw3 by (simp add: items)
  moreover have "name a' = src"
    using nm unfolding h2 by (simp add: a2_def a1_def new_Actor_def)
  ultimately show ?thesis
    unfolding p3_def by blast
qed

lemma stamp_setBreakpoint:
  "truthy src \<Longrightarrow> stamp_to src (setBreakpoint_body l) = setBreakpoint_request src l"
  by (simp add: stamp_to_def setBreakpoint_body_def setBreakpoint_request_def)

lemma stamp_delete:
  "stamp_to ident (JObj [(''type'', JStr ''delete'')]) = delete_request ident"
  by (simp add: stamp_to_def delete_request_def)

lemma addBreakpoints_replies:
  assumes "truthy src" and "length rs = length lines"
    and "\<forall>x \<in> set rs. get x ''from'' = src \<and> \<not> truthy (get x ''type'')"
  shows "\<exists>p'. addBreakpoints cv src lines (rs @ ms) p =
                 (Done (map (\<lambda>(l, r). item l r) (zip lines rs)), ms, p') \<and>
              trace p' = trace p @ exchange (map (setBreakpoint_request src) lines) rs \<and>
              actor_map p' (ToString src) = None"
proof -
  define source where "source = length (heap p)"
  define p0 where "p0 = p\<lparr>heap := heap p @ [new_Actor src SourceActor]\<rparr>"
  define pA where "pA = p0\<lparr>actor_map := (actor_map p0)(ToString src \<mapsto> source)\<rparr>"
  have c: "construct (new_Actor src SourceActor) p = (source, p0)"
    by (simp add: construct_def source_def p0_def new_Actor_def)
  have h0: "heap p0 ! source = new_Actor src SourceActor"
    by (simp add: p0_def source_def)
  have add: "addActor source p0 = pA"
    by (simp add: addActor_def h0 pA_def) (simp add: new_Actor_def)
  obtain a' where
    act: "addBreakpoints_action cv source lines (rs @ ms) pA =
            (Done (map (\<lambda>(l, r). item l r) (zip lines rs)), ms,
             pA\<lparr>heap := (heap pA)[source := a'],
                trace := trace pA @
                  exchange (map (\<lambda>l. stamp_to src (setBreakpoint_body l)) lines) rs\<rparr>)"
    and nm: "name a' = src"
    using addBreakpoints_action_replies [of source pA src rs lines cv ms] assms h0
    by (auto simp: pA_def p0_def source_def)
  define p3 where "p3 = pA\<lparr>heap := (heap pA)[source := a'],
                trace := trace pA @
                  exchange (map (\<lambda>l. stamp_to src (setBreakpoint_body l)) lines) rs\<rparr>"
  have h3: "heap p3 ! source = a'"
    by (simp add: p3_def pA_def p0_def source_def)
  have bodies: "map (\<lambda>l. stamp_to src (setBreakpoint_body l)) lines =
                map (setBreakpoint_request src) lines"
    using assms(1) by (simp add: stamp_setBreakpoint)
  have "addBreakpoints cv src lines (rs @ ms) p =
          (Done (map (\<lambda>(l, r). item l r) (zip lines rs)), ms, removeActor source p3)"
    by (simp add: addBreakpoints_def c executeOnce_def add act p3_def)
  moreover have "trace (removeActor source p3) =
                   trace p @ exchange (map (setBreakpoint_request src) lines) rs"
    by (simp add: removeActor_def p3_def pA_def p0_def bodies)
  moreover have "actor_map (removeActor source p3) (ToString src) = None"
    by (simp add: removeActor_def h3 nm)
  ultimately show ?thesis by blast
qed

lemma executeOnce_remove_reply:
  assumes "b < length (heap p)" and "heap p ! b = new_Actor ident Breakpoint"
    and "truthy ident" and "get r ''from'' = ident" and "\<not> truthy (get r ''type'')"
  shows "\<exists>p'. executeOnce b (remove cv b) (r # ms) p =
                 (if truthy (get r ''error'') then Failed r else Done r, ms, p') \<and>
              trace p' = trace p @ [Sent (delete_request ident), Received r] \<and>
              length (heap p') = length (heap p) \<and>
              (\<forall>s. s \<noteq> b \<longrightarrow> heap p' ! s = heap p ! s) \<and>
              actor_map p' (ToString ident) = None"
proof -
  define pA where "pA = p\<lparr>actor_map := (actor_map p)(ToString ident \<mapsto> b)\<rparr>"
  define q0 where "q0 = \<lparr>request_body = delete_request ident, capability = 0\<rparr>"
  define a1 where "a1 = (new_Actor ident Breakpoint)
                     \<lparr>capabilities := [Pending], processing := Some q0, relayed := [Request q0]\<rparr>"
  define p1 where "p1 = pA\<lparr>heap := (heap pA)[b := a1],
                          trace := trace pA @ [Sent (delete_request ident)]\<rparr>"
  define settled where "settled = (\<lambda>p :: protocol. capabilities (heap p ! b) ! 0 \<noteq> Pending)"
  have add: "addActor b p = pA"
    by (simp add: addActor_def assms(2) pA_def) (simp add: new_Actor_def)
  have hA: "heap pA ! b = new_Actor ident Breakpoint" by (simp add: pA_def assms(2))
  have s1: "sendRequest (JObj [(''type'', JStr ''delete'')]) (heap pA ! b) = (0, a1)"
    unfolding hA
    by (simp add: sendRequest_def Let_def stamp_delete a1_def q0_def) (simp add: new_Actor_def)
  have u1: "update_actor b a1 pA = p1"
    by (simp add: update_actor_def p1_def hA) (simp add: new_Actor_def a1_def q0_def)
  have h1: "heap p1 ! b = a1" using assms(1) by (simp add: p1_def pA_def)
  have "\<exists>a'. await cv settled (r # [] @ ms) p1 =
                 (None, ms, p1\<lparr>heap := (heap p1)[b := a'],
                              trace := trace p1 @ Received r #
                                exchange (map request_body ([] :: ActorRequest list)) []\<rparr>) \<and>
              capabilities a' = [] @ map reply_outcome (r # []) \<and>
              name a' = name (heap p1 ! b) \<and> cls a' = cls (heap p1 ! b)"
  proof (rule await_replies [where n = "Suc 0" and src = ident and q = q0 and qs = "[]"
                               and rs = "[]" and ds = "[]"])
    fix p' :: protocol
    assume "length (capabilities (heap p' ! b)) = Suc 0"
    then obtain c where "capabilities (heap p' ! b) = [c]"
      by (cases "capabilities (heap p' ! b)") auto
    then show "settled p' = (Pending \<notin> set (capabilities (heap p' ! b)))"
      by (auto simp: settled_def)
  next
    show "b < length (heap p1)" using assms(1) by (simp add: p1_def pA_def)
    show "actor_map p1 (ToString ident) = Some b" by (simp add: p1_def pA_def)
    show "truthy ident" by (rule assms(3))
    show "serving (heap p1 ! b) [] q0 []"
      unfolding h1 by (simp add: serving_def a1_def new_Actor_def plain_def q0_def)
    show "Suc 0 = length ([] :: (json, json) promise list) + Suc (length ([] :: ActorRequest list))"
      by simp
    show "length ([] :: json list) = length ([] :: ActorRequest list)" by simp
    show "\<forall>x\<in>set [r]. get x ''from'' = ident \<and> \<not> truthy (get x ''type'')"
      using assms(4,5) by simp
  qed
  then obtain a' where
    aw: "await cv settled (r # ms) p1 =
           (None, ms, p1\<lparr>heap := (heap p1)[b := a'], trace := trace p1 @ [Received r]\<rparr>)"
    and c: "capabilities a' = [reply_outcome r]"
    and nm: "name a' = name (heap p1 ! b)"
    by auto
  define p2 where "p2 = p1\<lparr>heap := (heap p1)[b := a'], trace := trace p1 @ [Received r]\<rparr>"
  have h2: "heap p2 ! b = a'" using assms(1) by (simp add: p2_def p1_def pA_def)
  have nm': "name a' = ident" using nm unfolding h1 by (simp add: a1_def new_Actor_def)
  have req: "request cv b (JObj [(''type'', JStr ''delete'')]) (r # ms) pA =
               (if truthy (get r ''error'') then Failed r else Done r, ms, p2)"
    unfolding request_def s1 Let_def prod.case u1 aw [unfolded settled_def] p2_def [symmetric]
    by (simp add: h2 c reply_outcome_def)
  have "executeOnce b (remove cv b) (r # ms) p =
          (if truthy (get r ''error'') then Failed r else Done r, ms, removeActor b p2)"
    by (simp add: executeOnce_def add remove_def req)
  moreover have "trace (removeActor b p2) = trace p @ [Sent (delete_request ident), Received r]"
    by (simp add: removeActor_def p2_def p1_def pA_def)
  moreover have "length (heap (removeActor b p2)) = length (heap p)"
    by (simp add: removeActor_def p2_def p1_def pA_def)
  moreover have "\<forall>s. s \<noteq> b \<longrightarrow> heap (removeActor b p2) ! s = heap p ! s"
    by (simp add: removeActor_def p2_def p1_def pA_def)
  moreover have "actor_map (removeActor b p2) (ToString ident) = None"
    by (simp add: removeActor_def h2 nm')
  ultimately show ?thesis by blast
qed

lemma new_Breakpoints_heap:
  "new_Breakpoints ids p =
     ([length (heap p)..<length (heap p) + length ids],
      p\<lparr>heap := heap p @ map (\<lambda>i. new_Actor i Breakpoint) ids\<rparr>)"
proof (induction ids arbitrary: p)
  case Nil
  then show ?case by simp
next
  case (Cons i ids)
  have c: "construct (new_Actor i Breakpoint) p =
             (length (heap p), p\<lparr>heap := heap p @ [new_Actor i Breakpoint]\<rparr>)"
    by (simp add: construct_def new_Actor_def)
  have u: "[length (heap p)..<length (heap p) + length (i # ids)] =
           length (heap p) # [Suc (length (heap p))..<Suc (length (heap p)) + length ids]"
    by (subst upt_rec) simp
  show ?case
    unfolding u by (simp add: c Cons.IH)
qed

lemma remove_chain_responses:
  assumes "list_all2 (\<lambda>b i. b < length (heap p) \<and> heap p ! b = new_Actor i Breakpoint) bs ids"
    and "distinct bs" and "list_all2 is_response ids rs"
  shows "\<exists>p'. remove_chain cv bs previous (rs @ ms) p = (Done (last (previous # rs)), ms, p') \<and>
              trace p' = trace p @ exchange (map delete_request ids) rs"
  using assms
proof (induction bs arbitrary: ids rs p previous)
  case Nil
  then show ?case by simp
next
  case (Cons b bs)
  from Cons.prems(1) obtain i ids' where ids: "ids = i # ids'"
    and b: "b < length (heap p)" "heap p ! b = new_Actor i Breakpoint"
    and rest: "list_all2 (\<lambda>b i. b < length (heap p) \<and> heap p ! b = new_Actor i Breakpoint) bs ids'"
    by (auto simp: list_all2_Cons1)
  from Cons.prems(3) ids obtain r rs' where rs: "rs = r # rs'"
    and r: "is_response i r" and rest_rs: "list_all2 is_response ids' rs'"
    by (auto simp: list_all2_Cons1)
  from r have ri: "truthy i" "get r ''from'' = i" "\<not> truthy (get r ''type'')"
    "\<not> truthy (get r ''error'')"
    by (simp_all add: is_response_def)
  obtain p1 where
    ex: "executeOnce b (remove cv b) (r # rs' @ ms) p = (Done r, rs' @ ms, p1)"
    and tr: "trace p1 = trace p @ [Sent (delete_request i), Received r]"
    and len: "length (heap p1) = length (heap p)"
    and same: "\<forall>s. s \<noteq> b \<longrightarrow> heap p1 ! s = heap p ! s"
    using executeOnce_remove_reply [OF b ri(1-3), of cv "rs' @ ms"] ri(4) by auto
  have inv1: "list_all2 (\<lambda>b i. b < length (heap p1) \<and> heap p1 ! b = new_Actor i Breakpoint) bs ids'"
  proof (rule list.rel_mono_strong [OF rest])
    fix b' i' assume "b' \<in> set bs" and "i' \<in> set ids'"
      and *: "b' < length (heap p) \<and> heap p ! b' = new_Actor i' Breakpoint"
    from \<open>b' \<in> set bs\<close> Cons.prems(2) have "b' \<noteq> b" by auto
    with * show "b' < length (heap p1) \<and> heap p1 ! b' = new_Actor i' Breakpoint"
      using len same by simp
  qed
  from Cons.prems(2) have d: "distinct bs" by simp
  from Cons.IH [OF inv1 d rest_rs, of r] obtain p' where
    ih: "remove_chain cv bs r (rs' @ ms) p1 = (Done (last (r # rs')), ms, p')"
    and tr': "trace p' = trace p1 @ exchange (map delete_request ids') rs'"
    by blast
  have "remove_chain cv (b # bs) previous (rs @ ms) p = (Done (last (previous # rs)), ms, p')"
    by (simp add: rs ex ih)
  moreover have "trace p' = trace p @ exchange (map delete_request ids) rs"
    by (simp add: tr' tr ids rs)
  ultimately show ?case by blast
qed

lemma removeBreakpoints_responses:
  assumes "list_all2 is_response ids rs"
  shows "\<exists>p'. removeBreakpoints cv ids (rs @ ms) p = (Done (last (JUndefined # rs)), ms, p') \<and>
              trace p' = trace p @ exchange (map delete_request ids) rs"
proof -
  define p0 where "p0 = p\<lparr>heap := heap p @ map (\<lambda>i. new_Actor i Breakpoint) ids\<rparr>"
  define bs where "bs = [length (heap p)..<length (heap p) + length ids]"
  have "list_all2 (\<lambda>b i. b < length (heap p0) \<and> heap p0 ! b = new_Actor i Breakpoint) bs ids"
    by (auto simp: list_all2_conv_all_nth bs_def p0_def nth_append)
  moreover have "distinct bs" by (simp add: bs_def)
  ultimately obtain p' where
    "remove_chain cv bs JUndefined (rs @ ms) p0 = (Done (last (JUndefined # rs)), ms, p')"
    and "trace p' = trace p0 @ exchange (map delete_request ids) rs"
    using remove_chain_responses [of p0 bs ids rs cv JUndefined ms] assms by blast
  then show ?thesis
    by (auto simp: removeBreakpoints_def new_Breakpoints_heap bs_def p0_def)
qed

lemma setBreakPoints_replies:
  assumes "list_all2 is_response oldBreakpointsIds rs"
    and "length ss = length lines" and "list_all (is_reply sourceId) ss"
  shows "\<exists>p'. setBreakPoints cv sourceId oldBreakpointsIds lines (rs @ ss @ ms) p =
                 (Done (map (\<lambda>(l, r). item l r) (zip lines ss)), ms, p') \<and>
              trace p' = trace p @ exchange (map delete_request oldBreakpointsIds) rs @
                           exchange (map (setBreakpoint_request sourceId) lines) ss"
proof -
  obtain p1 where
    rem: "(if oldBreakpointsIds \<noteq> [] then removeBreakpoints cv oldBreakpointsIds (rs @ ss @ ms) p
           else (Done JUndefined, rs @ ss @ ms, p)) = (Done (last (JUndefined # rs)), ss @ ms, p1)"
    and tr1: "trace p1 = trace p @ exchange (map delete_request oldBreakpointsIds) rs"
  proof (cases "oldBreakpointsIds = []")
    case True
    with assms(1) have "rs = []" by simp
    with True that [of p] show ?thesis by simp
  next
    case False
    with removeBreakpoints_responses [OF assms(1), of cv "ss @ ms" p] that show ?thesis
      by auto
  qed
  show ?thesis
  proof (cases "lines = []")
    case True
    with assms(2) have ss: "ss = []" by simp
    obtain p' where
      "addBreakpoints cv sourceId [] ms p1 = (Done [], ms, p')" and "trace p' = trace p1"
      unfolding addBreakpoints_def
      by (cases ms)
         (auto simp: construct_def executeOnce_def addBreakpoints_action_def entries_def
                     Let_def removeActor_def addActor_def new_Actor_def)
    then show ?thesis
      unfolding setBreakPoints_def rem by (simp add: True ss tr1)
  next
    case False
    with assms(2) obtain s ss' where "ss = s # ss'" by (cases ss) auto
    with assms(3) have src: "truthy sourceId" by (simp add: is_reply_def)
    have "\<forall>x \<in> set ss. get x ''from'' = sourceId \<and> \<not> truthy (get x ''type'')"
      using assms(3) by (auto simp: list_all_iff is_reply_def)
    then obtain p' where
      "addBreakpoints cv sourceId lines (ss @ ms) p1 =
         (Done (map (\<lambda>(l, r). item l r) (zip lines ss)), ms, p')"
      and "trace p' = trace p1 @ exchange (map (setBreakpoint_request sourceId) lines) ss"
      using addBreakpoints_replies [OF src assms(2), of cv ms p1] by blast
    then show ?thesis
      unfolding setBreakPoints_def rem by (simp add: tr1)
  qed
qed

lemma remove_chain_error:
  assumes "list_all2 (\<lambda>b i. b < length (heap p) \<and> heap p ! b = new_Actor i Breakpoint) bs ids"
    and "distinct bs" and "list_all2 is_response (take (length rs) ids) rs"
    and "length rs < length ids" and "is_reply (ids ! length rs) e" and "truthy (get e ''error'')"
  shows "\<exists>p'. remove_chain cv bs previous (rs @ e # ms) p = (Failed e, ms, p') \<and>
              trace p' = trace p @ exchange (map delete_request ids) (rs @ [e])"
  using assms
proof (induction bs arbitrary: ids rs p previous)
  case Nil
  then show ?case by simp
next
  case (Cons b bs)
  from Cons.prems(1) obtain i ids' where ids: "ids = i # ids'"
    and b: "b < length (heap p)" "heap p ! b = new_Actor i Breakpoint"
    and rest: "list_all2 (\<lambda>b i. b < length (heap p) \<and> heap p ! b = new_Actor i Breakpoint) bs ids'"
    by (auto simp: list_all2_Cons1)
  show ?case
  proof (cases rs)
    case Nil
    with Cons.prems(5) ids have ri: "truthy i" "get e ''from'' = i" "\<not> truthy (get e ''type'')"
      by (simp_all add: is_reply_def)
    obtain p1 where
      ex: "executeOnce b (remove cv b) (e # ms) p = (Failed e, ms, p1)"
      and tr: "trace p1 = trace p @ [Sent (delete_request i), Received e]"
      using executeOnce_remove_reply [OF b ri, of cv ms] Cons.prems(6) by auto
    then show ?thesis by (simp add: Nil ids)
  next
    case (Cons r rs')
    with Cons.prems(3) ids have r: "is_response i r"
      and rest_rs: "list_all2 is_response (take (length rs') ids') rs'"
      by simp_all
    from r have ri: "truthy i" "get r ''from'' = i" "\<not> truthy (get r ''type'')"
      "\<not> truthy (get r ''error'')"
      by (simp_all add: is_response_def)
    obtain p1 where
      ex: "executeOnce b (remove cv b) (r # rs' @ e # ms) p = (Done r, rs' @ e # ms, p1)"
      and tr: "trace p1 = trace p @ [Sent (delete_request i), Received r]"
      and len: "length (heap p1) = length (heap p)"
      and same: "\<forall>s. s \<noteq> b \<longrightarrow> heap p1 ! s = heap p ! s"
      using executeOnce_remove_reply [OF b ri(1-3), of cv "rs' @ e # ms"] ri(4) by auto
    have inv1: "list_all2 (\<lambda>b i. b < length (heap p1) \<and> heap p1 ! b = new_Actor i Breakpoint) bs ids'"
    proof (rule list.rel_mono_strong [OF rest])
      fix b' i' assume "b' \<in> set bs" and "i' \<in> set ids'"
        and *: "b' < length (heap p) \<and> heap p ! b' = new_Actor i' Breakpoint"
      from \<open>b' \<in> set bs\<close> Cons.prems(2) have "b' \<noteq> b" by auto
      with * show "b' < length (heap p1) \<and> heap p1 ! b' = new_Actor i' Breakpoint"
        using len same by simp
    qed
    from Cons.prems(2) have d: "distinct bs" by simp
    from Cons.prems(4) ids Cons have l: "length rs' < length ids'" by simp
    from Cons.prems(5) ids Cons have e: "is_reply (ids' ! length rs') e" by simp
    from Cons.IH [OF inv1 d rest_rs l e Cons.prems(6), of r] obtain p' where
      ih: "remove_chain cv bs r (rs' @ e # ms) p1 = (Failed e, ms, p')"
      and tr': "trace p' = trace p1 @ exchange (map delete_request ids') (rs' @ [e])"
      by blast
    show ?thesis
      by (simp add: Cons ex ih tr' tr ids)
  qed
qed

lemma removeBreakpoints_error:
  assumes "list_all2 is_response (take (length rs) ids) rs"
    and "length rs < length ids" and "is_reply (ids ! length rs) e" and "truthy (get e ''error'')"
  shows "\<exists>p'. removeBreakpoints cv ids (rs @ e # ms) p = (Failed e, ms, p') \<and>
              trace p' = trace p @ exchange (map delete_request ids) (rs @ [e])"
proof -
  define p0 where "p0 = p\<lparr>heap := heap p @ map (\<lambda>i. new_Actor i Breakpoint) ids\<rparr>"
  define bs where "bs = [length (heap p)..<length (heap p) + length ids]"
  have "list_all2 (\<lambda>b i. b < length (heap p0) \<and> heap p0 ! b = new_Actor i Breakpoint) bs ids"
    by (auto simp: list_all2_conv_all_nth bs_def p0_def nth_append)
  moreover have "distinct bs" by (simp add: bs_def)
  ultimately obtain p' where
    "remove_chain cv bs JUndefined (rs @ e # ms) p0 = (Failed e, ms, p')"
    and "trace p' = trace p0 @ exchange (map delete_request ids) (rs @ [e])"
    using remove_chain_error [of p0 bs ids rs e cv JUndefined ms] assms by blast
  then show ?thesis
    by (auto simp: removeBreakpoints_def new_Breakpoints_heap bs_def p0_def)
qed

text \<open>
  C7. \<open>executeOnce(action)\<close> registers the actor under its name before the action runs (the
  action starts in the state that \<open>addActor\<close> leaves), its outcome is the outcome of the
  action, and once the promise of the action is settled, fulfilled or rejected, the map
  has no entry for the name of the actor.
\<close>

theorem executeOnce_deregisters:
  "actor_map (addActor this p) (ToString (name (heap p ! this))) = Some this \<and>
   fst (executeOnce this action ms p) = fst (action ms (addActor this p)) \<and>
   (case executeOnce this action ms p of
      (Done result, ms', p') \<Rightarrow> actor_map p' (ToString (name (heap p' ! this))) = None
    | (Failed reason, ms', p') \<Rightarrow> actor_map p' (ToString (name (heap p' ! this))) = None
    | (Waiting, ms', p') \<Rightarrow> True
    | (Threw e, ms', p') \<Rightarrow> True)"
proof -
  obtain out ms' p' where a: "action ms (addActor this p) = (out, ms', p')"
    by (cases "action ms (addActor this p)")
  have 1: "actor_map (addActor this p) (ToString (name (heap p ! this))) = Some this"
    by (simp add: addActor_def)
  have 2: "fst (executeOnce this action ms p) = fst (action ms (addActor this p))"
    by (cases out) (simp_all add: executeOnce_def a)
  have 3: "case executeOnce this action ms p of
      (Done result, ms', p') \<Rightarrow> actor_map p' (ToString (name (heap p' ! this))) = None
    | (Failed reason, ms', p') \<Rightarrow> actor_map p' (ToString (name (heap p' ! this))) = None
    | (Waiting, ms', p') \<Rightarrow> True
    | (Threw e, ms', p') \<Rightarrow> True"
    by (cases out) (simp_all add: executeOnce_def a removeActor_def)
  from 1 2 3 show ?thesis by blast
qed

theorem executeOnce_deregisters_witness:
  "fst (executeOnce (Suc 0) (remove LocalURLHelper_convertToLocal (Suc 0)) [JObj [(''from'', JStr ''bp1'')]]
          (snd (construct (new_Actor (JStr ''bp1'') Breakpoint) (new_FirefoxProtocolImpl (JStr ''file:///proj/index.html'')))))
     = Done (JObj [(''from'', JStr ''bp1'')]) \<and>
   actor_map (addActor (Suc 0) (snd (construct (new_Actor (JStr ''bp1'') Breakpoint) (new_FirefoxProtocolImpl (JStr ''file:///proj/index.html''))))) ''bp1''
     = Some (Suc 0) \<and>
   actor_map (snd (snd (executeOnce (Suc 0) (remove LocalURLHelper_convertToLocal (Suc 0))
          [JObj [(''from'', JStr ''bp1'')]]
          (snd (construct (new_Actor (JStr ''bp1'') Breakpoint) (new_FirefoxProtocolImpl (JStr ''file:///proj/index.html''))))))) ''bp1''
     = None"
proof -
  define p where "p = snd (construct (new_Actor (JStr ''bp1'') Breakpoint) (new_FirefoxProtocolImpl (JStr ''file:///proj/index.html'')))"
  define r where "r = executeOnce (Suc 0) (remove LocalURLHelper_convertToLocal (Suc 0)) [JObj [(''from'', JStr ''bp1'')]] p"
  have d: "fst r = Done (JObj [(''from'', JStr ''bp1'')])"
    unfolding r_def p_def by code_simp
  have n: "ToString (name (heap (snd (snd r)) ! Suc 0)) = ''bp1''"
    unfolding r_def p_def by code_simp
  have m: "ToString (name (heap p ! Suc 0)) = ''bp1''"
    unfolding p_def by code_simp
  obtain out ms' p' where e: "r = (out, ms', p')"
    by (cases r)
  from executeOnce_deregisters
         [of "Suc 0" p "remove LocalURLHelper_convertToLocal (Suc 0)" "[JObj [(''from'', JStr ''bp1'')]]"]
  show ?thesis
    using d n m e unfolding r_def [symmetric] p_def [symmetric] by auto
qed

text \<open>
  C5, as stated, fails: two breakpoints are to be removed and the server answers the first
  \<open>delete\<close> with an error. The promise of \<open>removeBreakpoints\<close> is rejected with that
  error, and the only request written to the transport is the \<open>delete\<close> for the first id:
  there is none for the second.
\<close>

theorem removeBreakpoints_stops_at_error:
  "removeBreakpoints LocalURLHelper_convertToLocal [JStr ''bp1'', JStr ''bp2'']
     [JObj [(''from'', JStr ''bp1''), (''error'', JStr ''noSuchActor'')]] (new_FirefoxProtocolImpl (JStr ''file:///proj/index.html''))
   = (Failed (JObj [(''from'', JStr ''bp1''), (''error'', JStr ''noSuchActor'')]), [],
      snd (snd (removeBreakpoints LocalURLHelper_convertToLocal [JStr ''bp1'', JStr ''bp2'']
        [JObj [(''from'', JStr ''bp1''), (''error'', JStr ''noSuchActor'')]] (new_FirefoxProtocolImpl (JStr ''file:///proj/index.html''))))) \<and>
   trace (snd (snd (removeBreakpoints LocalURLHelper_convertToLocal [JStr ''bp1'', JStr ''bp2'']
     [JObj [(''from'', JStr ''bp1''), (''error'', JStr ''noSuchActor'')]] (new_FirefoxProtocolImpl (JStr ''file:///proj/index.html'')))))
   = [Sent (JObj [(''type'', JStr ''delete''), (''to'', JStr ''bp1'')]),
      Received (JObj [(''from'', JStr ''bp1''), (''error'', JStr ''noSuchActor'')])]"
proof -
  have 1: "fst (removeBreakpoints LocalURLHelper_convertToLocal [JStr ''bp1'', JStr ''bp2'']
     [JObj [(''from'', JStr ''bp1''), (''error'', JStr ''noSuchActor'')]] (new_FirefoxProtocolImpl (JStr ''file:///proj/index.html'')))
     = Failed (JObj [(''from'', JStr ''bp1''), (''error'', JStr ''noSuchActor'')])"
    by code_simp
  have 2: "fst (snd (removeBreakpoints LocalURLHelper_convertToLocal [JStr ''bp1'', JStr ''bp2'']
     [JObj [(''from'', JStr ''bp1''), (''error'', JStr ''noSuchActor'')]] (new_FirefoxProtocolImpl (JStr ''file:///proj/index.html'')))) = []"
    by code_simp
  have 3: "trace (snd (snd (removeBreakpoints LocalURLHelper_convertToLocal [JStr ''bp1'', JStr ''bp2'']
     [JObj [(''from'', JStr ''bp1''), (''error'', JStr ''noSuchActor'')]] (new_FirefoxProtocolImpl (JStr ''file:///proj/index.html'')))))
   = [Sent (JObj [(''type'', JStr ''delete''), (''to'', JStr ''bp1'')]),
      Received (JObj [(''from'', JStr ''bp1''), (''error'', JStr ''noSuchActor'')])]"
    by code_simp
  from 1 2 3 show ?thesis
    by (simp add: prod_eq_iff)
qed

text \<open>
  C5, amended. As long as the server answers every \<open>delete\<close> with a response,
  \<open>removeBreakpoints(ids)\<close> sends exactly one \<open>delete\<close> per id, in the order of the list,
  each one after the response to the one before it, and is fulfilled with the last
  response; in \<open>setBreakPointsRequest\<close> every \<open>delete\<close> and its response come before the
  first \<open>setBreakpoint\<close>. A \<open>delete\<close> that is answered with an error ends the sequence:
  the promise is rejected with the error, and neither the remaining \<open>delete\<close> requests nor
  any \<open>setBreakpoint\<close> request is sent.
\<close>

theorem breakpoints_removed_before_added:
  "(list_all2 is_response ids rs \<longrightarrow>
      (\<exists>p'. removeBreakpoints cv ids (rs @ ms) p = (Done (last (JUndefined # rs)), ms, p') \<and>
            trace p' = trace p @ exchange (map delete_request ids) rs)) \<and>
   (list_all2 is_response ids rs \<and> length ss = length lines \<and> list_all (is_reply sourceId) ss \<longrightarrow>
      (\<exists>p'. setBreakPoints cv sourceId ids lines (rs @ ss @ ms) p =
               (Done (map (\<lambda>(l, r). item l r) (zip lines ss)), ms, p') \<and>
            trace p' = trace p @ exchange (map delete_request ids) rs @
                         exchange (map (setBreakpoint_request sourceId) lines) ss)) \<and>
   (list_all2 is_response (take (length qs) ids) qs \<and> length qs < length ids \<and>
    is_reply (ids ! length qs) e \<and> truthy (get e ''error'') \<longrightarrow>
      (\<exists>p'. removeBreakpoints cv ids (qs @ e # ms) p = (Failed e, ms, p') \<and>
            trace p' = trace p @ exchange (map delete_request ids) (qs @ [e])) \<and>
      (\<exists>p'. setBreakPoints cv sourceId ids lines (qs @ e # ms) p = (Failed e, ms, p') \<and>
            trace p' = trace p @ exchange (map delete_request ids) (qs @ [e])))"
proof (intro conjI impI)
  assume "list_all2 is_response ids rs"
  then show "\<exists>p'. removeBreakpoints cv ids (rs @ ms) p = (Done (last (JUndefined # rs)), ms, p') \<and>
            trace p' = trace p @ exchange (map delete_request ids) rs"
    by (rule removeBreakpoints_responses)
next
  assume "list_all2 is_response ids rs \<and> length ss = length lines \<and> list_all (is_reply sourceId) ss"
  then show "\<exists>p'. setBreakPoints cv sourceId ids lines (rs @ ss @ ms) p =
               (Done (map (\<lambda>(l, r). item l r) (zip lines ss)), ms, p') \<and>
            trace p' = trace p @ exchange (map delete_request ids) rs @
                         exchange (map (setBreakpoint_request sourceId) lines) ss"
    using setBreakPoints_replies by blast
next
  assume a: "list_all2 is_response (take (length qs) ids) qs \<and> length qs < length ids \<and>
    is_reply (ids ! length qs) e \<and> truthy (get e ''error'')"
  then obtain p' where
    r: "removeBreakpoints cv ids (qs @ e # ms) p = (Failed e, ms, p')"
    and t: "trace p' = trace p @ exchange (map delete_request ids) (qs @ [e])"
    using removeBreakpoints_error [of qs ids e cv ms p] by blast
  from r t show "\<exists>p'. removeBreakpoints cv ids (qs @ e # ms) p = (Failed e, ms, p') \<and>
            trace p' = trace p @ exchange (map delete_request ids) (qs @ [e])"
    by blast
  from a have "ids \<noteq> []" by auto
  with r t show "\<exists>p'. setBreakPoints cv sourceId ids lines (qs @ e # ms) p = (Failed e, ms, p') \<and>
            trace p' = trace p @ exchange (map delete_request ids) (qs @ [e])"
    by (simp add: setBreakPoints_def)
qed

theorem breakpoints_removed_before_added_witness:
  "fst (setBreakPoints LocalURLHelper_convertToLocal (JStr ''source1'')
          [JStr ''bp1'', JStr ''bp2''] [2, 3]
          [JObj [(''from'', JStr ''bp1'')], JObj [(''from'', JStr ''bp2'')],
           JObj [(''from'', JStr ''source1''), (''actor'', JStr ''bp3'')],
           JObj [(''from'', JStr ''source1''), (''actor'', JStr ''bp4'')]] (new_FirefoxProtocolImpl (JStr ''file:///proj/index.html'')))
     = Done [JObj [(''id'', JStr ''bp3''), (''line'', JNum 2), (''verified'', JBool True)],
             JObj [(''id'', JStr ''bp4''), (''line'', JNum 3), (''verified'', JBool True)]] \<and>
   trace (snd (snd (setBreakPoints LocalURLHelper_convertToLocal (JStr ''source1'')
          [JStr ''bp1'', JStr ''bp2''] [2, 3]
          [JObj [(''from'', JStr ''bp1'')], JObj [(''from'', JStr ''bp2'')],
           JObj [(''from'', JStr ''source1''), (''actor'', JStr ''bp3'')],
           JObj [(''from'', JStr ''source1''), (''actor'', JStr ''bp4'')]] (new_FirefoxProtocolImpl (JStr ''file:///proj/index.html'')))))
     = [Sent (JObj [(''type'', JStr ''delete''), (''to'', JStr ''bp1'')]),
        Received (JObj [(''from'', JStr ''bp1'')]),
        Sent (JObj [(''type'', JStr ''delete''), (''to'', JStr ''bp2'')]),
        Received (JObj [(''from'', JStr ''bp2'')]),
        Sent (JObj [(''type'', JStr ''setBreakpoint''), (''location'', JObj [(''line'', JNum 2)]),
                    (''to'', JStr ''source1'')]),
        Received (JObj [(''from'', JStr ''source1''), (''actor'', JStr ''bp3'')]),
        Sent (JObj [(''type'', JStr ''setBreakpoint''), (''location'', JObj [(''line'', JNum 3)]),
                    (''to'', JStr ''source1'')]),
        Received (JObj [(''from'', JStr ''source1''), (''actor'', JStr ''bp4'')])] \<and>
   fst (removeBreakpoints LocalURLHelper_convertToLocal [JStr ''bp1'', JStr ''bp2'']
          [JObj [(''from'', JStr ''bp1'')], JObj [(''from'', JStr ''bp2'')]] (new_FirefoxProtocolImpl (JStr ''file:///proj/index.html'')))
     = Done (JObj [(''from'', JStr ''bp2'')]) \<and>
   fst (setBreakPoints LocalURLHelper_convertToLocal (JStr ''source1'')
          [JStr ''bp1'', JStr ''bp2''] [2, 3]
          [JObj [(''from'', JStr ''bp1'')],
           JObj [(''from'', JStr ''bp2''), (''error'', JStr ''noSuchActor'')]] (new_FirefoxProtocolImpl (JStr ''file:///proj/index.html'')))
     = Failed (JObj [(''from'', JStr ''bp2''), (''error'', JStr ''noSuchActor'')])"
proof -
  have t: "trace (new_FirefoxProtocolImpl (JStr ''file:///proj/index.html'')) = []"
    by code_simp
  from breakpoints_removed_before_added
         [of "[JStr ''bp1'', JStr ''bp2'']"
             "[JObj [(''from'', JStr ''bp1'')], JObj [(''from'', JStr ''bp2'')]]"
             LocalURLHelper_convertToLocal
             "[]" "new_FirefoxProtocolImpl (JStr ''file:///proj/index.html'')"
             "[JObj [(''from'', JStr ''source1''), (''actor'', JStr ''bp3'')],
               JObj [(''from'', JStr ''source1''), (''actor'', JStr ''bp4'')]]"
             "[2, 3]" "JStr ''source1''"
             "[JObj [(''from'', JStr ''bp1'')]]"
             "JObj [(''from'', JStr ''bp2''), (''error'', JStr ''noSuchActor'')]"]
  show ?thesis
    by (auto simp: t is_response_def is_reply_def item_def addBreakpoint_fulfilled_def
          delete_request_def setBreakpoint_request_def)
qed

text \<open>
  C6. When the server has answered each of the \<open>setBreakpoint\<close> requests, with a response
  or with an error, \<open>addBreakpoints(sourceId, lines)\<close> is fulfilled (never rejected) with
  one entry per line. For a line whose request got a response, the entry has the actor
  of the response as id, is verified exactly when the response does not say \<open>isPending\<close>,
  and its line is the line of \<open>actualLocation\<close> when the response has one, the requested
  line otherwise. For a line whose request failed the entry is
  \<open>{id: undefined, line: <the requested line>, verified: false}\<close>.
\<close>

theorem addBreakpoints_one_entry_per_line:
  assumes "truthy sourceId" and "length rs = length lines"
    and "list_all (is_reply sourceId) rs"
  shows "\<exists>items p'.
           addBreakpoints cv sourceId lines (rs @ ms) p = (Done items, ms, p') \<and>
           length items = length lines \<and>
           (\<forall>i<length lines.
              if truthy (get (rs ! i) ''error'')
              then items ! i = JObj [(''id'', JUndefined), (''line'', JNum (lines ! i)),
                                     (''verified'', JBool False)]
              else get (items ! i) ''id'' = get (rs ! i) ''actor'' \<and>
                   get (items ! i) ''verified'' = JBool (\<not> truthy (get (rs ! i) ''isPending'')) \<and>
                   get (items ! i) ''line'' =
                     (if truthy (get (rs ! i) ''actualLocation'')
                      then get (get (rs ! i) ''actualLocation'') ''line''
                      else JNum (lines ! i)))"
proof -
  have "\<forall>x \<in> set rs. get x ''from'' = sourceId \<and> \<not> truthy (get x ''type'')"
    using assms(3) by (auto simp: list_all_iff is_reply_def)
  then obtain p' where
    a: "addBreakpoints cv sourceId lines (rs @ ms) p =
          (Done (map (\<lambda>(l, r). item l r) (zip lines rs)), ms, p')"
    using addBreakpoints_replies [OF assms(1,2), of cv ms p] by blast
  have "\<forall>i<length lines.
              if truthy (get (rs ! i) ''error'')
              then map (\<lambda>(l, r). item l r) (zip lines rs) ! i =
                     JObj [(''id'', JUndefined), (''line'', JNum (lines ! i)),
                           (''verified'', JBool False)]
              else get (map (\<lambda>(l, r). item l r) (zip lines rs) ! i) ''id'' = get (rs ! i) ''actor'' \<and>
                   get (map (\<lambda>(l, r). item l r) (zip lines rs) ! i) ''verified'' =
                     JBool (\<not> truthy (get (rs ! i) ''isPending'')) \<and>
                   get (map (\<lambda>(l, r). item l r) (zip lines rs) ! i) ''line'' =
                     (if truthy (get (rs ! i) ''actualLocation'')
                      then get (get (rs ! i) ''actualLocation'') ''line''
                      else JNum (lines ! i))"
    using assms(2)
    by (simp add: item_def addBreakpoint_rejected_def addBreakpoint_fulfilled_def Let_def)
  with a assms(2) show ?thesis by (intro exI [of _ "map (\<lambda>(l, r). item l r) (zip lines rs)"]) auto
qed

theorem addBreakpoints_one_entry_per_line_witness:
  "\<exists>items.
     fst (addBreakpoints LocalURLHelper_convertToLocal (JStr ''source1'') [2, 3]
            [JObj [(''from'', JStr ''source1''), (''actor'', JStr ''bp1''),
                   (''isPending'', JBool True), (''actualLocation'', JObj [(''line'', JNum 4)])],
             JObj [(''from'', JStr ''source1''), (''error'', JStr ''noSuchActor'')]] (new_FirefoxProtocolImpl (JStr ''file:///proj/index.html'')))
       = Done items \<and>
     length items = 2 \<and>
     get (items ! 0) ''id'' = JStr ''bp1'' \<and>
     get (items ! 0) ''verified'' = JBool False \<and>
     get (items ! 0) ''line'' = JNum 4 \<and>
     items ! 1 = JObj [(''id'', JUndefined), (''line'', JNum 3), (''verified'', JBool False)]"
proof -
  from addBreakpoints_one_entry_per_line
         [of "JStr ''source1''"
             "[JObj [(''from'', JStr ''source1''), (''actor'', JStr ''bp1''),
                     (''isPending'', JBool True), (''actualLocation'', JObj [(''line'', JNum 4)])],
               JObj [(''from'', JStr ''source1''), (''error'', JStr ''noSuchActor'')]]"
             "[2, 3]" LocalURLHelper_convertToLocal "[]" "new_FirefoxProtocolImpl (JStr ''file:///proj/index.html'')"]
  obtain items p' where
    a: "addBreakpoints LocalURLHelper_convertToLocal (JStr ''source1'') [2, 3]
            [JObj [(''from'', JStr ''source1''), (''actor'', JStr ''bp1''),
                   (''isPending'', JBool True), (''actualLocation'', JObj [(''line'', JNum 4)])],
             JObj [(''from'', JStr ''source1''), (''error'', JStr ''noSuchActor'')]] (new_FirefoxProtocolImpl (JStr ''file:///proj/index.html''))
          = (Done items, [], p')"
    and l: "length items = 2"
    and i: "\<forall>i<2.
              if truthy (get ([JObj [(''from'', JStr ''source1''), (''actor'', JStr ''bp1''),
                     (''isPending'', JBool True), (''actualLocation'', JObj [(''line'', JNum 4)])],
                   JObj [(''from'', JStr ''source1''), (''error'', JStr ''noSuchActor'')]] ! i) ''error'')
              then items ! i = JObj [(''id'', JUndefined), (''line'', JNum ([2, 3] ! i)),
                                     (''verified'', JBool False)]
              else get (items ! i) ''id'' =
                     get ([JObj [(''from'', JStr ''source1''), (''actor'', JStr ''bp1''),
                        (''isPending'', JBool True), (''actualLocation'', JObj [(''line'', JNum 4)])],
                      JObj [(''from'', JStr ''source1''), (''error'', JStr ''noSuchActor'')]] ! i) ''actor'' \<and>
                   get (items ! i) ''verified'' =
                     JBool (\<not> truthy (get ([JObj [(''from'', JStr ''source1''), (''actor'', JStr ''bp1''),
                        (''isPending'', JBool True), (''actualLocation'', JObj [(''line'', JNum 4)])],
                      JObj [(''from'', JStr ''source1''), (''error'', JStr ''noSuchActor'')]] ! i) ''isPending'')) \<and>
                   get (items ! i) ''line'' =
                     (if truthy (get ([JObj [(''from'', JStr ''source1''), (''actor'', JStr ''bp1''),
                        (''isPending'', JBool True), (''actualLocation'', JObj [(''line'', JNum 4)])],
                      JObj [(''from'', JStr ''source1''), (''error'', JStr ''noSuchActor'')]] ! i) ''actualLocation'')
                      then get (get ([JObj [(''from'', JStr ''source1''), (''actor'', JStr ''bp1''),
                        (''isPending'', JBool True), (''actualLocation'', JObj [(''line'', JNum 4)])],
                      JObj [(''from'', JStr ''source1''), (''error'', JStr ''noSuchActor'')]] ! i) ''actualLocation'') ''line''
                      else JNum ([2, 3] ! i))"
    by (auto simp: is_reply_def)
  from i have "get (items ! 0) ''id'' = JStr ''bp1'' \<and>
     get (items ! 0) ''verified'' = JBool False \<and>
     get (items ! 0) ''line'' = JNum 4"
    by (simp add: All_less_Suc numeral_2_eq_2)
  moreover from i have "items ! 1 = JObj [(''id'', JUndefined), (''line'', JNum 3), (''verified'', JBool False)]"
    by (simp add: All_less_Suc numeral_2_eq_2)
  ultimately show ?thesis
    using a l by simp
qed
end
